theory Spec2Isabelle
  imports Main "HOL-Library.Word"
begin

section \<open>Bytes, strings and script tokens\<close>

text \<open>
  A script is a byte slice. A Go string is an immutable byte sequence as well, and the
  conversions \<^verbatim>\<open>string(b)\<close> and \<^verbatim>\<open>[]byte(s)\<close> keep the bytes, so tags, addresses and
  messages are byte lists too; \<open>str\<close> writes a literal.
\<close>

type_synonym byte = "8 word"

definition str :: "string \<Rightarrow> byte list" where
  "str s = map (\<lambda>c. of_nat (of_char c)) s"

record ScriptChunk =
  Op :: byte
  Data :: "byte list"

datatype error =
    ErrScriptIndexOutOfRange
  | ErrDataTooSmall
  | ErrDataTooBig
  | ErrInsufficientData
  | ErrMissingMessageData
  | ErrMissingTransactionData
  | ErrFailedToGenerateMessageHash
  | ErrUnsupportedSignatureAlgorithm
  | ErrBase64Decode
  | ErrBSMVerificationFailed
  | ErrECDSAVerificationFailed
  | ErrSyntax
  | ErrRange
  | PanicIndexOutOfRange
  | PanicNilDereference

abbreviation OpFALSE :: byte where "OpFALSE \<equiv> 0x00"
abbreviation OpDATA1 :: byte where "OpDATA1 \<equiv> 0x01"
abbreviation OpPUSHDATA1 :: byte where "OpPUSHDATA1 \<equiv> 0x4c"
abbreviation OpPUSHDATA2 :: byte where "OpPUSHDATA2 \<equiv> 0x4d"
abbreviation OpPUSHDATA4 :: byte where "OpPUSHDATA4 \<equiv> 0x4e"
abbreviation OpRETURN :: byte where "OpRETURN \<equiv> 0x6a"

text \<open>
  Modelled from the spec: the token reader \<^verbatim>\<open>(*Script).ReadOp(pos *int)\<close> is part of the
  go-sdk script package, which the repository imports and does not contain. The token
  grammar is the one of spec section 6 (single-byte opcodes; pushes with a one-byte length
  \<open>0x01..0x4b\<close>, or \<open>OP_PUSHDATA1/2/4\<close> with a little-endian length of 1, 2 or 4 bytes).
  The reader returns the token and moves the cursor behind it. On a push whose header or
  data is cut short it returns an error; the cursor then stays where it was, except that
  behind a complete \<open>OP_PUSHDATA\<close> header it has already moved over the header. The
  repository's own fuzz tests (bitcom_fuzz_test.go) record the consequence: a loop that
  ignores the error does not advance on truncated input.
  The result pairs the value returned with the new cursor.
\<close>

definition ReadOp :: "byte list \<Rightarrow> nat \<Rightarrow> (error + ScriptChunk) \<times> nat" where
  "ReadOp b pos =
    (if length b \<le> pos then (Inl ErrScriptIndexOutOfRange, pos)
     else if b ! pos = OpPUSHDATA1 then
       (if length b < pos + 2 then (Inl ErrDataTooSmall, pos)
        else let l = unat (b ! (pos + 1)); pos' = pos + 2 in
          if length b < pos' + l then (Inl ErrDataTooSmall, pos')
          else (Inr \<lparr>Op = OpPUSHDATA1, Data = take l (drop pos' b)\<rparr>, pos' + l))
     else if b ! pos = OpPUSHDATA2 then
       (if length b < pos + 3 then (Inl ErrDataTooSmall, pos)
        else let l = unat (b ! (pos + 1)) + 256 * unat (b ! (pos + 2)); pos' = pos + 3 in
          if length b < pos' + l then (Inl ErrDataTooSmall, pos')
          else (Inr \<lparr>Op = OpPUSHDATA2, Data = take l (drop pos' b)\<rparr>, pos' + l))
     else if b ! pos = OpPUSHDATA4 then
       (if length b < pos + 5 then (Inl ErrDataTooSmall, pos)
        else let l = unat (b ! (pos + 1)) + 256 * unat (b ! (pos + 2))
                     + 65536 * unat (b ! (pos + 3)) + 16777216 * unat (b ! (pos + 4));
                 pos' = pos + 5 in
          if length b < pos' + l then (Inl ErrDataTooSmall, pos')
          else (Inr \<lparr>Op = OpPUSHDATA4, Data = take l (drop pos' b)\<rparr>, pos' + l))
     else if 0x01 \<le> b ! pos \<and> b ! pos < OpPUSHDATA1 then
       (let l = unat (b ! pos) in
          if length b < pos + (1 + l) then (Inl ErrDataTooSmall, pos)
          else (Inr \<lparr>Op = b ! pos, Data = take l (drop (pos + 1) b)\<rparr>, pos + (1 + l)))
     else (Inr \<lparr>Op = b ! pos, Data = []\<rparr>, pos + 1))"

text \<open>
  Modelled from the spec: \<^verbatim>\<open>PushDataPrefix\<close> and \<^verbatim>\<open>(*Script).AppendPushData\<close> are go-sdk
  functions as well. They write the shortest push header of spec section 6 for the data
  (a length byte up to 75 bytes, then \<open>OP_PUSHDATA1\<close>, \<open>2\<close>, \<open>4\<close>) followed by the data;
  data too long for \<open>OP_PUSHDATA4\<close> is an error and leaves the script unchanged.
\<close>

definition PushDataPrefix :: "byte list \<Rightarrow> error + byte list" where
  "PushDataPrefix d =
    (let l = length d in
     if l \<le> 75 then Inr [of_nat l]
     else if l \<le> 0xFF then Inr [OpPUSHDATA1, of_nat l]
     else if l \<le> 0xFFFF then Inr [OpPUSHDATA2, of_nat (l mod 256), of_nat (l div 256)]
     else if l \<le> 0xFFFFFFFF then
       Inr [OpPUSHDATA4, of_nat (l mod 256), of_nat (l div 256 mod 256),
            of_nat (l div 65536 mod 256), of_nat (l div 16777216)]
     else Inl ErrDataTooBig)"

definition AppendPushData :: "byte list \<Rightarrow> byte list \<Rightarrow> byte list" where
  "AppendPushData s d = (case PushDataPrefix d of Inl e \<Rightarrow> s | Inr p \<Rightarrow> s @ p @ d)"

section \<open>The envelope scanner and builder (bitcom.go)\<close>

record BitcomProtocol =
  Protocol :: "byte list"
  Script :: "byte list"
  Pos :: nat

record Bitcom =
  Protocols :: "BitcomProtocol list"
  ScriptPrefix :: "byte list"

text \<open>
  \<^verbatim>\<open>findReturn\<close> and \<^verbatim>\<open>findPipe\<close> loop while the cursor is inside the script and ignore
  the reader's error. Such a loop need not end, so each is a partial function whose value
  \<open>None\<close> means that the call never returns; \<open>Some r\<close> is the returned integer (\<open>-1\<close> for
  "not found"). The script argument is \<open>None\<close> for a nil pointer.
\<close>

partial_function (option) findReturn_loop :: "byte list \<Rightarrow> nat \<Rightarrow> int option" where
  "findReturn_loop scr i =
    (if i < length scr then
       (case ReadOp scr i of
          (Inr op, i') \<Rightarrow> if Op op = OpRETURN then Some (int i) else findReturn_loop scr i'
        | (Inl err, i') \<Rightarrow> findReturn_loop scr i')
     else Some (- 1))"

declare findReturn_loop.simps [code]

definition findReturn :: "byte list option \<Rightarrow> int option" where
  "findReturn scr = (case scr of Some s \<Rightarrow> findReturn_loop s 0 | None \<Rightarrow> Some (- 1))"

partial_function (option) findPipe_loop :: "byte list \<Rightarrow> nat \<Rightarrow> int option" where
  "findPipe_loop scr i =
    (if i < length scr then
       (case ReadOp scr i of
          (Inr op, i') \<Rightarrow>
            if Op op = OpDATA1 \<and> Data op ! 0 = 0x7c then Some (int i)
            else findPipe_loop scr i'
        | (Inl err, i') \<Rightarrow> findPipe_loop scr i')
     else Some (- 1))"

declare findPipe_loop.simps [code]

definition findPipe :: "byte list option \<Rightarrow> nat \<Rightarrow> int option" where
  "findPipe scr from = (case scr of Some s \<Rightarrow> findPipe_loop s from | None \<Rightarrow> Some (- 1))"

text \<open>
  The entry loop of \<^verbatim>\<open>Decode\<close>. The entry is appended once its tag has been read; its
  payload is filled in afterwards (left empty when the loop breaks at \<open>pipePos < pos\<close>).
\<close>

partial_function (option) Decode_loop ::
  "byte list \<Rightarrow> nat \<Rightarrow> BitcomProtocol list \<Rightarrow> BitcomProtocol list option" where
  "Decode_loop scr pos protos =
    (if pos < length scr then
       (case findPipe (Some scr) pos of
          None \<Rightarrow> None
        | Some pipePos \<Rightarrow>
           (case ReadOp scr pos of
              (Inl err, pos') \<Rightarrow> Some protos
            | (Inr op, pos') \<Rightarrow>
                if pipePos = - 1 then
                  Some (protos @ [\<lparr>Protocol = Data op, Script = drop pos' scr, Pos = pos\<rparr>])
                else if pipePos < int pos' then
                  Some (protos @ [\<lparr>Protocol = Data op, Script = [], Pos = pos\<rparr>])
                else
                  Decode_loop scr (nat (pipePos + 2))
                    (protos @ [\<lparr>Protocol = Data op,
                                Script = take (nat pipePos - pos') (drop pos' scr),
                                Pos = pos\<rparr>])))
     else Some protos)"

declare Decode_loop.simps [code]

text \<open>
  \<^verbatim>\<open>Decode\<close>: the outer \<open>option\<close> is again "the call returns"; the inner one is the
  returned pointer, \<open>None\<close> for nil (no marker).
\<close>

definition Decode :: "byte list option \<Rightarrow> Bitcom option option" where
  "Decode scr =
    (case scr of
       None \<Rightarrow> Some (Some \<lparr>Protocols = [], ScriptPrefix = []\<rparr>)
     | Some s \<Rightarrow>
        (case findReturn (Some s) of
           None \<Rightarrow> None
         | Some pos \<Rightarrow>
            if pos = - 1 then Some None
            else
              (let prefix = (if pos > 0 then take (nat (pos - 1)) s else []) in
               case Decode_loop s (nat (pos + 1)) [] of
                 None \<Rightarrow> None
               | Some protos \<Rightarrow> Some (Some \<lparr>Protocols = protos, ScriptPrefix = prefix\<rparr>))))"

text \<open>
  \<^verbatim>\<open>Lock\<close>: the loop over the entries; \<open>i < len(b.Protocols)-1\<close> holds exactly when
  entries remain behind the current one.
\<close>

fun Lock_loop :: "byte list \<Rightarrow> BitcomProtocol list \<Rightarrow> byte list" where
  "Lock_loop s [] = s"
| "Lock_loop s (p # ps) =
    (let s1 = AppendPushData s (Protocol p);
         s2 = s1 @ Script p;
         s3 = (if ps \<noteq> [] then AppendPushData s2 (str ''|'') else s2)
     in Lock_loop s3 ps)"

definition Lock :: "Bitcom \<Rightarrow> byte list" where
  "Lock b =
    (let s = ScriptPrefix b in
     if length (Protocols b) > 0 then Lock_loop (s @ [OpRETURN]) (Protocols b) else s)"

section \<open>Complete tokens and their bytes\<close>

text \<open>
  The statements about the scanner need the scripts that consist of complete tokens.
  \<open>wf_chunk\<close> says that a token is one the reader can return: a push carries as many data
  bytes as its header declares, any other opcode carries none. \<open>enc_chunk\<close> writes the
  bytes of a token, \<open>enc_chunks\<close> those of a token sequence.
\<close>

definition wf_chunk :: "ScriptChunk \<Rightarrow> bool" where
  "wf_chunk c =
    (if Op c = OpPUSHDATA1 then length (Data c) < 256
     else if Op c = OpPUSHDATA2 then length (Data c) < 65536
     else if Op c = OpPUSHDATA4 then length (Data c) < 4294967296
     else if 0x01 \<le> Op c \<and> Op c < OpPUSHDATA1 then length (Data c) = unat (Op c)
     else Data c = [])"

definition enc_chunk :: "ScriptChunk \<Rightarrow> byte list" where
  "enc_chunk c =
    (let d = Data c; l = length d in
     if Op c = OpPUSHDATA1 then [OpPUSHDATA1, of_nat l] @ d
     else if Op c = OpPUSHDATA2 then [OpPUSHDATA2, of_nat (l mod 256), of_nat (l div 256)] @ d
     else if Op c = OpPUSHDATA4 then
       [OpPUSHDATA4, of_nat (l mod 256), of_nat (l div 256 mod 256),
        of_nat (l div 65536 mod 256), of_nat (l div 16777216)] @ d
     else Op c # d)"

definition enc_chunks :: "ScriptChunk list \<Rightarrow> byte list" where
  "enc_chunks cs = concat (map enc_chunk cs)"

text \<open>The delimiter token of spec section 6: the one-byte push \<open>0x01 0x7c\<close>.\<close>

definition is_pipe :: "ScriptChunk \<Rightarrow> bool" where
  "is_pipe c = (Op c = OpDATA1 \<and> Data c = [0x7c])"

text \<open>The token that \<^verbatim>\<open>AppendPushData\<close> writes for a byte string.\<close>

definition push_chunk :: "byte list \<Rightarrow> ScriptChunk" where
  "push_chunk d =
    (let l = length d in
     \<lparr>Op = (if l \<le> 75 then of_nat l else if l \<le> 0xFF then OpPUSHDATA1
             else if l \<le> 0xFFFF then OpPUSHDATA2 else OpPUSHDATA4),
      Data = d\<rparr>)"

text \<open>
  The bytes that \<^verbatim>\<open>Lock\<close> writes behind the marker, an entry of the builder made of a tag
  and a token sequence, and the entries the round trip is stated for: the tag fits a push
  and is not the delimiter, the payload is a sequence of complete tokens without a
  delimiter token.
\<close>

fun body :: "BitcomProtocol list \<Rightarrow> byte list" where
  "body [] = []"
| "body (p # ps) =
     enc_chunk (push_chunk (Protocol p)) @ Script p
       @ (if ps \<noteq> [] then [0x01, 0x7c] else []) @ body ps"

definition entry_ok :: "BitcomProtocol \<Rightarrow> bool" where
  "entry_ok p \<longleftrightarrow> length (Protocol p) \<le> 0xFFFFFFFF \<and> Protocol p \<noteq> [0x7c]
     \<and> (\<exists>cs. Script p = enc_chunks cs \<and> (\<forall>c\<in>set cs. wf_chunk c \<and> \<not> is_pipe c))"

definition mk_entry :: "byte list \<times> ScriptChunk list \<Rightarrow> BitcomProtocol" where
  "mk_entry e = \<lparr>Protocol = fst e, Script = enc_chunks (snd e), Pos = 0\<rparr>"

text \<open>The (tag, payload) pairs of an envelope, and of an entry given to the builder.\<close>

definition entries_of :: "Bitcom \<Rightarrow> (byte list \<times> byte list) list" where
  "entries_of b = map (\<lambda>p. (Protocol p, Script p)) (Protocols b)"

definition entry_bytes :: "byte list \<times> ScriptChunk list \<Rightarrow> byte list \<times> byte list" where
  "entry_bytes e = (fst e, enc_chunks (snd e))"

section \<open>Base64 (encoding/base64)\<close>




definition b64_val :: "byte \<Rightarrow> nat option" where
  "b64_val c =
    (if 0x41 \<le> c \<and> c \<le> 0x5a then Some (unat c - 65)
     else if 0x61 \<le> c \<and> c \<le> 0x7a then Some (unat c - 71)
     else if 0x30 \<le> c \<and> c \<le> 0x39 then Some (unat c + 4)
     else if c = 0x2b then Some 62
     else if c = 0x2f then Some 63
     else None)"

fun b64_quanta :: "byte list \<Rightarrow> byte list option" where
  "b64_quanta [] = Some []"
| "b64_quanta (c0 # c1 # c2 # c3 # rest) =
    (case (b64_val c0, b64_val c1) of
       (Some v0, Some v1) \<Rightarrow>
         (case (b64_val c2, b64_val c3) of
            (Some v2, Some v3) \<Rightarrow>
              (let v = v0 * 262144 + v1 * 4096 + v2 * 64 + v3 in
               map_option (\<lambda>r. [of_nat (v div 65536), of_nat (v div 256 mod 256),
                                 of_nat (v mod 256)] @ r) (b64_quanta rest))
          | (Some v2, None) \<Rightarrow>
              (let v = v0 * 262144 + v1 * 4096 + v2 * 64 in
               if c3 = 0x3d \<and> rest = []
               then Some [of_nat (v div 65536), of_nat (v div 256 mod 256)] else None)
          | (None, _) \<Rightarrow>
              (let v = v0 * 262144 + v1 * 4096 in
               if c2 = 0x3d \<and> c3 = 0x3d \<and> rest = [] then Some [of_nat (v div 65536)] else None))
     | _ \<Rightarrow> None)"
| "b64_quanta _ = None"

definition DecodeString :: "byte list \<Rightarrow> byte list option" where
  "DecodeString s = b64_quanta (filter (\<lambda>c. c \<noteq> 0x0a \<and> c \<noteq> 0x0d) s)"

section \<open>The detached signature (sigma.go)\<close>

text \<open>
  The two external capabilities are parameters: \<open>verify address signature message\<close> stands
  for \<^verbatim>\<open>bsm.VerifyMessage\<close> and is true when that call returns no error; \<open>H\<close> stands for
  \<^verbatim>\<open>sha256.Sum256\<close>.
\<close>

type_synonym verifier = "byte list \<Rightarrow> byte list \<Rightarrow> byte list \<Rightarrow> bool"
type_synonym hasher = "byte list \<Rightarrow> byte list"

text \<open>Two verifiers for the examples: one rejects everything, one accepts a single message.\<close>

definition rejects_all :: verifier where
  "rejects_all address signature message = False"

definition accepts_only :: "byte list \<Rightarrow> verifier" where
  "accepts_only m address signature message = (message = m)"

definition SIGMAPrefix :: "byte list" where "SIGMAPrefix = str ''SIGMA''"
definition AlgoECDSA :: "byte list" where "AlgoECDSA = str ''ECDSA''"
definition AlgoSHA256ECDSA :: "byte list" where "AlgoSHA256ECDSA = str ''SHA256-ECDSA''"
definition AlgoBSM :: "byte list" where "AlgoBSM = str ''BSM''"

text \<open>
  The parts of a transaction that the code reads. Pointers that the code tests against nil
  or dereferences are options.
\<close>

record TransactionInput =
  SourceTXID :: "byte list option"
  SourceTxOutIndex :: "32 word"

record TransactionOutput =
  LockingScript :: "byte list option"

record Transaction =
  Inputs :: "TransactionInput option list"
  Outputs :: "TransactionOutput option list"

record Sigma =
  Algorithm :: "byte list"
  SignerAddress :: "byte list"
  SignatureValue :: "byte list"
  Message :: "byte list"
  Nonce :: "byte list"
  VIN :: int
  Valid :: bool
  Transaction :: "Transaction option"
  TargetOutput :: int
  TargetInput :: int
  SigmaInstance :: int

definition GetSignatureBytes :: "Sigma \<Rightarrow> error + byte list" where
  "GetSignatureBytes s =
    (if SignatureValue s = [] then Inr []
     else (case DecodeString (SignatureValue s) of
             None \<Rightarrow> Inl ErrBase64Decode
           | Some decoded \<Rightarrow> Inr decoded))"

text \<open>
  The verification methods return the error (\<open>None\<close> for nil) together with the updated
  record.
\<close>

definition VerifyMessageSignature :: "verifier \<Rightarrow> Sigma \<Rightarrow> error option \<times> Sigma" where
  "VerifyMessageSignature verify s =
    (if SignerAddress s = [] \<or> SignatureValue s = [] \<or> Message s = []
     then (Some ErrMissingMessageData, s)
     else
      (case GetSignatureBytes s of
         Inl err \<Rightarrow> (Some err, s)
       | Inr sigBytes \<Rightarrow>
        if Algorithm s = AlgoBSM then
          (if verify (SignerAddress s) sigBytes (Message s) then (None, s\<lparr>Valid := True\<rparr>)
           else if SignerAddress s = str ''1EXhSbGFiEAZCE5eeBvUxT6cBVHhrpPWXz''
                 \<and> Message s = str ''Hello, World!''
                 \<and> SignatureValue s =
                     str ''H89DSY12iMmrF16T4aDPwFcqrtuGxyoT69yTBH4GqXyzNZ+POVhxV5FLAvHdwKmJ0IhQT/w7JQpTg0XBZ5zeJ+c=''
           then (None, s\<lparr>Valid := True\<rparr>)
           else (Some ErrBSMVerificationFailed, s))
        else if Algorithm s = AlgoECDSA \<or> Algorithm s = AlgoSHA256ECDSA then
          (if verify (SignerAddress s) sigBytes (Message s) then (None, s\<lparr>Valid := True\<rparr>)
           else (Some ErrECDSAVerificationFailed, s))
        else (Some ErrUnsupportedSignatureAlgorithm, s)))"

definition PutUint32 :: "32 word \<Rightarrow> byte list" where
  "PutUint32 v = [ucast v, ucast (drop_bit 8 v), ucast (drop_bit 16 v), ucast (drop_bit 24 v)]"

text \<open>
  The hash helpers return a panic as \<open>Inl\<close> (an index out of range, a nil dereference) and
  the returned slice as \<open>Inr\<close>, \<open>None\<close> for nil.
\<close>

definition getInputHash :: "hasher \<Rightarrow> Sigma \<Rightarrow> error + byte list option" where
  "getInputHash H s =
    (case Transaction s of
       None \<Rightarrow> Inr None
     | Some tx \<Rightarrow>
        if length (Inputs tx) = 0 then Inr None
        else
          (let vin = (if VIN s < 0 \<or> VIN s \<ge> int (length (Inputs tx)) then TargetOutput s
                      else VIN s) in
           if vin < 0 \<or> vin \<ge> int (length (Inputs tx)) then Inl PanicIndexOutOfRange
           else
             (case Inputs tx ! nat vin of
                None \<Rightarrow> Inr None
              | Some input \<Rightarrow>
                 (case SourceTXID input of
                    None \<Rightarrow> Inr None
                  | Some txidBytes \<Rightarrow>
                      Inr (Some (H (txidBytes @ PutUint32 (SourceTxOutIndex input))))))))"

text \<open>
  The loop of \<^verbatim>\<open>getDataHash\<close>; it returns the bytes that are hashed. The reader's errors
  break the loop here, and a token that is read moves the cursor, so the loop ends.
\<close>

function getDataHash_loop :: "byte list \<Rightarrow> int \<Rightarrow> nat \<Rightarrow> nat \<Rightarrow> int \<Rightarrow> byte list" where
  "getDataHash_loop scriptBytes inst pos prevPos occurrences =
    (if pos < length scriptBytes then
       (case ReadOp scriptBytes pos of
          (Inl err, pos1) \<Rightarrow> scriptBytes
        | (Inr op, pos1) \<Rightarrow>
            if Op op = OpRETURN
               \<or> (Op op = OpPUSHDATA1 \<and> length (Data op) = 1 \<and> Data op ! 0 = 0x7c)
            then
              (case ReadOp scriptBytes pos1 of
                 (Inl err, pos2) \<Rightarrow> scriptBytes
               | (Inr nextOp, pos2) \<Rightarrow>
                   if Data nextOp = SIGMAPrefix then
                     (if occurrences = inst then take prevPos scriptBytes
                      else getDataHash_loop scriptBytes inst pos2 pos2 (occurrences + 1))
                   else getDataHash_loop scriptBytes inst pos2 pos2 occurrences)
            else getDataHash_loop scriptBytes inst pos1 pos1 occurrences)
     else scriptBytes)"
  by pat_completeness auto
termination
  by (relation "measure (\<lambda>(scriptBytes, inst, pos, prevPos, occurrences). length scriptBytes - pos)")
     (auto simp add: ReadOp_def Let_def split: if_splits)

definition getDataHash :: "hasher \<Rightarrow> Sigma \<Rightarrow> error + byte list option" where
  "getDataHash H s =
    (case Transaction s of
       None \<Rightarrow> Inr None
     | Some tx \<Rightarrow>
        if int (length (Outputs tx)) \<le> TargetOutput s then Inr None
        else if TargetOutput s < 0 then Inl PanicIndexOutOfRange
        else
          (case Outputs tx ! nat (TargetOutput s) of
             None \<Rightarrow> Inl PanicNilDereference
           | Some output \<Rightarrow>
              (case LockingScript output of
                 None \<Rightarrow> Inr None
               | Some scriptBytes \<Rightarrow>
                   Inr (Some (H (getDataHash_loop scriptBytes (SigmaInstance s) 0 0 0))))))"









section \<open>The identity signature (aip.go)\<close>

text \<open>
  Modelled from the spec: \<^verbatim>\<open>script.DecodeScript\<close> and \<^verbatim>\<open>(*Script).Chunks\<close> are go-sdk
  functions. They split a script into the tokens of spec section 6 and fail on a push that
  is cut short. The functions of this repository that call them take the decoder as a
  parameter; \<open>DecodeScript\<close> below, which reads token after token, is the instance used in
  the examples.
\<close>

type_synonym decoder = "byte list \<Rightarrow> error + ScriptChunk list"

function DecodeScript_loop :: "byte list \<Rightarrow> nat \<Rightarrow> ScriptChunk list \<Rightarrow> error + ScriptChunk list" where
  "DecodeScript_loop b pos ops =
    (if pos < length b then
       (case ReadOp b pos of
          (Inl err, pos') \<Rightarrow> Inl err
        | (Inr op, pos') \<Rightarrow> DecodeScript_loop b pos' (ops @ [op]))
     else Inr ops)"
  by pat_completeness auto
termination
  by (relation "measure (\<lambda>(b, pos, ops). length b - pos)")
     (auto simp add: ReadOp_def Let_def split: if_splits)

definition DecodeScript :: decoder where
  "DecodeScript b = DecodeScript_loop b 0 []"

text \<open>
  Modelled from the spec: \<^verbatim>\<open>unicode.IsPrint\<close> is the Go standard library's test for
  printable runes. The code applies it to \<^verbatim>\<open>rune(op.Op)\<close>, a code point below 256: there
  the printable ones are \<open>U+0020..U+007E\<close> and \<open>U+00A1..U+00FF\<close> without the soft hyphen
  \<open>U+00AD\<close>.
\<close>

definition IsPrint :: "byte \<Rightarrow> bool" where
  "IsPrint r = ((0x20 \<le> r \<and> r \<le> 0x7e) \<or> (0xa1 \<le> r \<and> r \<noteq> 0xad))"

record AIP =
  BitcomIndex :: nat
  Algorithm :: "byte list"
  Address :: "byte list"
  Signature :: "byte list"
  FieldIndexes :: "int list option"
  Valid :: bool

text \<open>
  \<^verbatim>\<open>slices.Contains(aip.FieldIndexes, idx)\<close> behind the nil test: the token with the running
  index \<open>idx\<close> is selected.
\<close>

definition selected :: "int list option \<Rightarrow> nat \<Rightarrow> bool" where
  "selected fieldIndexes idx =
    (case fieldIndexes of None \<Rightarrow> True | Some xs \<Rightarrow> int idx \<in> set xs)"

text \<open>
  \<^verbatim>\<open>validateAip\<close>: the inner loop over the tokens of one entry and the outer loop over the
  entries, each passing on the buffer \<open>data\<close> and the running index \<open>idx\<close>.
\<close>

fun validateAip_tape ::
  "int list option \<Rightarrow> ScriptChunk list \<Rightarrow> byte list \<times> nat \<Rightarrow> byte list \<times> nat" where
  "validateAip_tape fieldIndexes [] (data, idx) = (data, idx)"
| "validateAip_tape fieldIndexes (op # tape) (data, idx) =
    (let data' =
       (if (Op op > 0 \<or> Op op \<le> 0x4e) \<and> selected fieldIndexes idx then data @ Data op
        else if Op op > 0x43 \<and> IsPrint (Op op) then data @ [Op op]
        else data)
     in validateAip_tape fieldIndexes tape (data', idx + 1))"

fun validateAip_protos ::
  "decoder \<Rightarrow> int list option \<Rightarrow> BitcomProtocol list \<Rightarrow> byte list \<times> nat \<Rightarrow> byte list \<times> nat" where
  "validateAip_protos decode fieldIndexes [] (data, idx) = (data, idx)"
| "validateAip_protos decode fieldIndexes (p # protos) (data, idx) =
    (let data1 = data @ Protocol p in
     case decode (Script p) of
       Inl err \<Rightarrow> validateAip_protos decode fieldIndexes protos (data1, idx)
     | Inr tape \<Rightarrow>
        (case validateAip_tape fieldIndexes tape (data1, idx) of
           (data2, idx2) \<Rightarrow>
             validateAip_protos decode fieldIndexes protos (data2 @ [0x7c], idx2)))"

definition validateAip :: "verifier \<Rightarrow> decoder \<Rightarrow> AIP \<Rightarrow> BitcomProtocol list \<Rightarrow> AIP" where
  "validateAip verify decode aip protos =
    (case validateAip_protos decode (FieldIndexes aip) protos ([OpRETURN], 0) of
       (data, idx) \<Rightarrow>
         if verify (AIP.Address aip) (AIP.Signature aip) data then aip\<lparr>AIP.Valid := True\<rparr>
         else aip)"

text \<open>
  The canonical message in the words of the claim (spec section 4.5): the marker byte;
  for each entry its tag, then for each token with its running index: the data of a push
  that is selected, nothing for a push that is not, the opcode byte of a non-push opcode
  in the printable range; then the delimiter byte.
\<close>

definition is_push :: "ScriptChunk \<Rightarrow> bool" where
  "is_push op = (0 < Op op \<and> Op op \<le> 0x4e)"

definition spec_token :: "int list option \<Rightarrow> nat \<times> ScriptChunk \<Rightarrow> byte list" where
  "spec_token fieldIndexes t =
    (case t of (idx, op) \<Rightarrow>
       if is_push op then (if selected fieldIndexes idx then Data op else [])
       else if Op op > 0x43 \<and> IsPrint (Op op) then [Op op]
       else [])"

definition entry_tape :: "decoder \<Rightarrow> BitcomProtocol \<Rightarrow> ScriptChunk list" where
  "entry_tape decode p = (case decode (Script p) of Inl err \<Rightarrow> [] | Inr tape \<Rightarrow> tape)"

fun spec_entries ::
  "decoder \<Rightarrow> int list option \<Rightarrow> nat \<Rightarrow> BitcomProtocol list \<Rightarrow> byte list" where
  "spec_entries decode fieldIndexes start [] = []"
| "spec_entries decode fieldIndexes start (p # protos) =
    Protocol p
    @ concat (map (spec_token fieldIndexes)
        (zip [start ..< start + length (entry_tape decode p)] (entry_tape decode p)))
    @ [0x7c]
    @ spec_entries decode fieldIndexes (start + length (entry_tape decode p)) protos"

definition spec_message :: "decoder \<Rightarrow> int list option \<Rightarrow> BitcomProtocol list \<Rightarrow> byte list" where
  "spec_message decode fieldIndexes protos = OpRETURN # spec_entries decode fieldIndexes 0 protos"

text \<open>
  The canonical message as amended: a push that is selected contributes its data; every
  other token contributes its opcode byte when that byte is above \<open>0x43\<close> and printable
  (the pushes \<open>0x44..0x4e\<close> that are not selected are among them) and nothing otherwise.
  An entry whose payload does not decode contributes its tag alone: no delimiter, and no
  token is counted.
\<close>

definition amended_token :: "int list option \<Rightarrow> nat \<times> ScriptChunk \<Rightarrow> byte list" where
  "amended_token fieldIndexes t =
    (case t of (idx, op) \<Rightarrow>
       if is_push op \<and> selected fieldIndexes idx then Data op
       else if Op op > 0x43 \<and> IsPrint (Op op) then [Op op]
       else [])"

fun amended_entries ::
  "decoder \<Rightarrow> int list option \<Rightarrow> nat \<Rightarrow> BitcomProtocol list \<Rightarrow> byte list" where
  "amended_entries decode fieldIndexes start [] = []"
| "amended_entries decode fieldIndexes start (p # protos) =
    (case decode (Script p) of
       Inl err \<Rightarrow> Protocol p @ amended_entries decode fieldIndexes start protos
     | Inr tape \<Rightarrow>
         Protocol p
         @ concat (map (amended_token fieldIndexes) (zip [start ..< start + length tape] tape))
         @ [0x7c]
         @ amended_entries decode fieldIndexes (start + length tape) protos)"

definition amended_message :: "decoder \<Rightarrow> int list option \<Rightarrow> BitcomProtocol list \<Rightarrow> byte list" where
  "amended_message decode fieldIndexes protos =
     OpRETURN # amended_entries decode fieldIndexes 0 protos"

text \<open>Every token that is selected is a push: the tokens with their running indexes.\<close>

fun indexed_tokens :: "decoder \<Rightarrow> nat \<Rightarrow> BitcomProtocol list \<Rightarrow> (nat \<times> ScriptChunk) list" where
  "indexed_tokens decode start [] = []"
| "indexed_tokens decode start (p # protos) =
    zip [start ..< start + length (entry_tape decode p)] (entry_tape decode p)
    @ indexed_tokens decode (start + length (entry_tape decode p)) protos"

section \<open>The attestation record (bap.go)\<close>

definition BAPPrefix :: "byte list" where "BAPPrefix = str ''1BAPSuaPnfGnSBM3GLV9yhxUdYe4vGbdMT''"
definition pipeSeparator :: "byte list" where "pipeSeparator = str ''|''"
definition ATTEST :: "byte list" where "ATTEST = str ''ATTEST''"
definition ID :: "byte list" where "ID = str ''ID''"
definition REVOKE :: "byte list" where "REVOKE = str ''REVOKE''"
definition ALIAS :: "byte list" where "ALIAS = str ''ALIAS''"

record Bap =
  BitcomIndex :: nat
  Type :: "byte list"
  IDKey :: "byte list"
  Address :: "byte list"
  Sequence :: "64 word"
  Algorithm :: "byte list"
  SignerAddr :: "byte list"
  Signature :: "byte list"
  RootAddress :: "byte list"
  IsSignedByID :: bool
  Profile :: "byte list"

text \<open>
  Modelled from the spec: \<^verbatim>\<open>strconv.ParseUint(s, 10, 64)\<close> is the Go standard library's
  parser of the sequence number, a decimal string (spec section 4.6). It fails with a
  syntax error and the value 0 on the empty string and at the first byte that is not a
  digit, and with a range error and the value \<open>2^64 - 1\<close> as soon as the digits read so far
  leave the range of \<open>uint64\<close>; it reads the bytes from left to right. The code keeps the
  value and drops the error.
\<close>

definition is_digit :: "byte \<Rightarrow> bool" where
  "is_digit c = (0x30 \<le> c \<and> c \<le> 0x39)"

abbreviation maxUint64 :: nat where "maxUint64 \<equiv> 18446744073709551615"

definition digit_value :: "byte \<Rightarrow> nat" where
  "digit_value c = unat (c - 0x30)"

fun ParseUint_loop :: "nat \<Rightarrow> byte list \<Rightarrow> nat \<times> error option" where
  "ParseUint_loop n [] = (n, None)"
| "ParseUint_loop n (c # cs) =
    (if \<not> is_digit c then (0, Some ErrSyntax)
     else if n \<ge> maxUint64 div 10 + 1 then (maxUint64, Some ErrRange)
     else
       (let n1 = n * 10 + digit_value c in
        if n1 > maxUint64 then (maxUint64, Some ErrRange)
        else ParseUint_loop n1 cs))"

definition ParseUint :: "byte list \<Rightarrow> 64 word \<times> error option" where
  "ParseUint s =
    (if s = [] then (0, Some ErrSyntax)
     else case ParseUint_loop 0 s of (n, err) \<Rightarrow> (of_nat n, err))"

text \<open>
  \<^verbatim>\<open>strings.Index\<close>, \<^verbatim>\<open>strings.Contains\<close> and \<^verbatim>\<open>strings.SplitN\<close> with a non-empty
  separator and a positive count, as the fallback path of \<^verbatim>\<open>DecodeBAP\<close> uses them.
\<close>

fun strings_Index :: "byte list \<Rightarrow> byte list \<Rightarrow> nat option" where
  "strings_Index [] sub = (if sub = [] then Some 0 else None)"
| "strings_Index (c # cs) sub =
    (if take (length sub) (c # cs) = sub then Some 0
     else map_option Suc (strings_Index cs sub))"

definition strings_Contains :: "byte list \<Rightarrow> byte list \<Rightarrow> bool" where
  "strings_Contains s sub = (strings_Index s sub \<noteq> None)"

fun strings_SplitN :: "byte list \<Rightarrow> byte list \<Rightarrow> nat \<Rightarrow> byte list list" where
  "strings_SplitN s sep 0 = []"
| "strings_SplitN s sep (Suc 0) = [s]"
| "strings_SplitN s sep (Suc (Suc n)) =
    (case strings_Index s sep of
       None \<Rightarrow> [s]
     | Some i \<Rightarrow> take i s # strings_SplitN (drop (i + length sep) s) sep (Suc n))"

text \<open>
  The block "look for AIP signature data", which the source repeats in each of the four
  cases: the first token from index 3 on whose data is \<open>"|"\<close>, and the signature fields
  behind it. In the \<open>ID\<close> case the block also sets \<open>RootAddress\<close> and \<open>IsSignedByID\<close>.
\<close>

definition aipSignature :: "ScriptChunk list \<Rightarrow> bool \<Rightarrow> Bap \<Rightarrow> Bap" where
  "aipSignature chunks isID bap =
    (case List.find (\<lambda>i. Data (chunks ! i) = pipeSeparator) [3 ..< length chunks] of
       None \<Rightarrow> bap
     | Some pipeIdx \<Rightarrow>
        if pipeIdx + 3 < length chunks then
          (let bap1 = bap\<lparr>Bap.Algorithm := Data (chunks ! (pipeIdx + 2)),
                         SignerAddr := Data (chunks ! (pipeIdx + 3))\<rparr>
           in
           if pipeIdx + 4 < length chunks then
             (let bap2 = bap1\<lparr>Bap.Signature := Data (chunks ! (pipeIdx + 4))\<rparr> in
              if isID then bap2\<lparr>RootAddress := SignerAddr bap2, IsSignedByID := True\<rparr>
              else bap2\<lparr>IsSignedByID := False\<rparr>)
           else bap1)
        else bap)"

text \<open>
  \<^verbatim>\<open>DecodeBAP\<close>, the body of the loop for one entry with the BAP tag: \<open>None\<close> is
  \<^verbatim>\<open>continue\<close>, \<open>Some bap\<close> the record returned. The token decoder \<^verbatim>\<open>scr.Chunks()\<close> and
  \<^verbatim>\<open>strings.TrimSpace\<close> are parameters.
\<close>

definition DecodeBAP_fallback :: "(byte list \<Rightarrow> byte list) \<Rightarrow> Bap \<Rightarrow> byte list \<Rightarrow> Bap option" where
  "DecodeBAP_fallback TrimSpace bap scriptStr =
    (if strings_Contains scriptStr ID then
       (let parts = strings_SplitN scriptStr ID 2 in
        if length parts > 1 then
          (let remainingParts = strings_SplitN (parts ! 1) (str '' '') 3 in
           if length remainingParts \<ge> 2 then
             Some (bap\<lparr>Type := ID, IDKey := TrimSpace (remainingParts ! 0),
                       Bap.Address := TrimSpace (remainingParts ! 1)\<rparr>)
           else None)
        else None)
     else if strings_Contains scriptStr ATTEST then
       (let parts = strings_SplitN scriptStr ATTEST 2 in
        if length parts > 1 then
          (let remainingParts = strings_SplitN (parts ! 1) (str '' '') 3 in
           if length remainingParts \<ge> 2 then
             Some (bap\<lparr>Type := ATTEST, IDKey := TrimSpace (remainingParts ! 0),
                       Sequence := fst (ParseUint (remainingParts ! 1))\<rparr>)
           else None)
        else None)
     else None)"

definition DecodeBAP_entry ::
  "decoder \<Rightarrow> (byte list \<Rightarrow> byte list) \<Rightarrow> nat \<Rightarrow> BitcomProtocol \<Rightarrow> Bap option" where
  "DecodeBAP_entry Chunks TrimSpace ii proto =
    (let bap = \<lparr>BitcomIndex = ii, Type = [], IDKey = [], Address = [], Sequence = 0,
                 Algorithm = [], SignerAddr = [], Signature = [], RootAddress = [],
                 IsSignedByID = False, Profile = []\<rparr>
     in
     case Chunks (Script proto) of
       Inl err \<Rightarrow> DecodeBAP_fallback TrimSpace bap (Script proto)
     | Inr chunks \<Rightarrow>
        if length chunks < 2 then DecodeBAP_fallback TrimSpace bap (Script proto)
        else
          (let bap = bap\<lparr>Type := Data (chunks ! 0)\<rparr> in
           if Type bap = ID then
             Some (if length chunks \<ge> 3
                   then aipSignature chunks True
                          (bap\<lparr>IDKey := Data (chunks ! 1), Bap.Address := Data (chunks ! 2)\<rparr>)
                   else bap)
           else if Type bap = ATTEST then
             Some (if length chunks \<ge> 3
                   then aipSignature chunks False
                          (bap\<lparr>IDKey := Data (chunks ! 1),
                               Sequence := fst (ParseUint (Data (chunks ! 2)))\<rparr>)
                   else bap)
           else if Type bap = REVOKE then
             Some (if length chunks \<ge> 3
                   then aipSignature chunks False
                          (bap\<lparr>IDKey := Data (chunks ! 1),
                               Sequence := fst (ParseUint (Data (chunks ! 2)))\<rparr>)
                   else bap)
           else if Type bap = ALIAS then
             Some (if length chunks \<ge> 3
                   then aipSignature chunks False
                          (bap\<lparr>IDKey := Data (chunks ! 1), Profile := Data (chunks ! 2)\<rparr>)
                   else bap)
           else Some bap))"

fun DecodeBAP_loop ::
  "decoder \<Rightarrow> (byte list \<Rightarrow> byte list) \<Rightarrow> nat \<Rightarrow> BitcomProtocol list \<Rightarrow> Bap option" where
  "DecodeBAP_loop Chunks TrimSpace ii [] = None"
| "DecodeBAP_loop Chunks TrimSpace ii (proto # rest) =
    (if Protocol proto = BAPPrefix then
       (case DecodeBAP_entry Chunks TrimSpace ii proto of
          Some bap \<Rightarrow> Some bap
        | None \<Rightarrow> DecodeBAP_loop Chunks TrimSpace (ii + 1) rest)
     else DecodeBAP_loop Chunks TrimSpace (ii + 1) rest)"

definition DecodeBAP :: "decoder \<Rightarrow> (byte list \<Rightarrow> byte list) \<Rightarrow> Bitcom option \<Rightarrow> Bap option" where
  "DecodeBAP Chunks TrimSpace b =
    (case b of
       None \<Rightarrow> None
     | Some bc \<Rightarrow>
        if length (Protocols bc) = 0 then None
        else DecodeBAP_loop Chunks TrimSpace 0 (Protocols bc))"

text \<open>
  A decimal number, and the value of the digits in front of the first byte that is not a
  digit.
\<close>

definition is_decimal :: "byte list \<Rightarrow> bool" where
  "is_decimal s = (s \<noteq> [] \<and> list_all is_digit s)"

definition leading_value :: "byte list \<Rightarrow> nat" where
  "leading_value s = foldl (\<lambda>n c. n * 10 + digit_value c) 0 (takeWhile is_digit s)"

section \<open>The reader on complete tokens\<close>

lemma unat_byte_of_nat: "n < 256 \<Longrightarrow> unat (of_nat n :: byte) = n"
  by (simp add: unat_of_nat)

lemma div_65536: "(l::nat) div 65536 = (l div 256) div 256"
proof -
  have "(l div 256) div 256 = l div (256 * 256)" by (rule div_mult2_eq[symmetric])
  then show ?thesis by simp
qed

lemma div_16777216: "(l::nat) div 16777216 = ((l div 256) div 256) div 256"
proof -
  have "((l div 256) div 256) div 256 = (l div 256) div (256 * 256)" by (rule div_mult2_eq[symmetric])
  also have "\<dots> = l div (256 * (256 * 256))" by (rule div_mult2_eq[symmetric])
  finally show ?thesis by simp
qed

lemma le4: "l mod 256 + 256 * (l div 256 mod 256) + 65536 * (l div 65536 mod 256)
     + 16777216 * (l div 16777216) = (l::nat)"
proof -
  define q1 where "q1 = l div 256"
  define q2 where "q2 = q1 div 256"
  define q3 where "q3 = q2 div 256"
  have 1: "l = l mod 256 + 256 * q1" unfolding q1_def by simp
  have 2: "q1 = q1 mod 256 + 256 * q2" unfolding q2_def by simp
  have 3: "q2 = q2 mod 256 + 256 * q3" unfolding q3_def by simp
  have "l mod 256 + 256 * (q1 mod 256) + 65536 * (q2 mod 256) + 16777216 * q3
      = l mod 256 + 256 * (q1 mod 256 + 256 * (q2 mod 256 + 256 * q3))" by simp
  also have "\<dots> = l" using 1 2 3 by simp
  finally show ?thesis unfolding div_65536 div_16777216 q1_def q2_def q3_def .
qed

lemma div4: "l < 4294967296 \<Longrightarrow> l div 16777216 < (256::nat)"
  by (simp add: less_mult_imp_div_less)

lemma ReadOp_enc_p1:
  assumes "Op c = OpPUSHDATA1" "length (Data c) < 256"
  shows "ReadOp (pre @ enc_chunk c @ post) (length pre) = (Inr c, length pre + length (enc_chunk c))"
  using assms
  by (simp add: ReadOp_def enc_chunk_def nth_append Let_def unat_byte_of_nat)

lemma ReadOp_enc_p2:
  assumes "Op c = OpPUSHDATA2" "length (Data c) < 65536"
  shows "ReadOp (pre @ enc_chunk c @ post) (length pre) = (Inr c, length pre + length (enc_chunk c))"
proof -
  let ?l = "length (Data c)"
  have "?l mod 256 < 256" "?l div 256 < 256" using assms by simp_all
  then show ?thesis using assms
    by (simp add: ReadOp_def enc_chunk_def nth_append Let_def unat_byte_of_nat)
qed

lemma ReadOp_enc_p4:
  assumes "Op c = OpPUSHDATA4" "length (Data c) < 4294967296"
  shows "ReadOp (pre @ enc_chunk c @ post) (length pre) = (Inr c, length pre + length (enc_chunk c))"
proof -
  let ?l = "length (Data c)"
  have "?l mod 256 < 256" "?l div 256 mod 256 < 256" "?l div 65536 mod 256 < 256"
    by simp_all
  moreover have "?l div 16777216 < 256" using assms(2) by (rule div4)
  ultimately show ?thesis using assms(1) le4[of ?l]
    by (simp add: ReadOp_def enc_chunk_def nth_append Let_def unat_byte_of_nat)
qed

lemma ReadOp_enc_direct:
  assumes "0x01 \<le> Op c" "Op c < OpPUSHDATA1" "length (Data c) = unat (Op c)"
  shows "ReadOp (pre @ enc_chunk c @ post) (length pre) = (Inr c, length pre + length (enc_chunk c))"
proof -
  have "Op c \<noteq> OpPUSHDATA1" "Op c \<noteq> OpPUSHDATA2" "Op c \<noteq> OpPUSHDATA4" using assms(2) by auto
  then show ?thesis using assms
    by (simp add: ReadOp_def enc_chunk_def nth_append Let_def)
qed

lemma ReadOp_enc_opcode:
  assumes "Op c \<noteq> OpPUSHDATA1" "Op c \<noteq> OpPUSHDATA2" "Op c \<noteq> OpPUSHDATA4"
          "\<not> (0x01 \<le> Op c \<and> Op c < OpPUSHDATA1)" "Data c = []"
  shows "ReadOp (pre @ enc_chunk c @ post) (length pre) = (Inr c, length pre + length (enc_chunk c))"
proof -
  have "ReadOp (pre @ enc_chunk c @ post) (length pre) = (Inr \<lparr>Op = Op c, Data = []\<rparr>, length pre + 1)"
    using assms(1-4) by (auto simp add: ReadOp_def enc_chunk_def nth_append Let_def)
  moreover have "length (enc_chunk c) = 1" using assms by (simp add: enc_chunk_def)
  moreover have "\<lparr>Op = Op c, Data = []\<rparr> = c" using assms(5) by simp
  ultimately show ?thesis by simp
qed

lemma ReadOp_enc:
  assumes "wf_chunk c"
  shows "ReadOp (pre @ enc_chunk c @ post) (length pre) = (Inr c, length pre + length (enc_chunk c))"
proof -
  consider (p1) "Op c = OpPUSHDATA1" | (p2) "Op c = OpPUSHDATA2" | (p4) "Op c = OpPUSHDATA4"
    | (d) "Op c \<noteq> OpPUSHDATA1" "Op c \<noteq> OpPUSHDATA2" "Op c \<noteq> OpPUSHDATA4" "0x01 \<le> Op c" "Op c < OpPUSHDATA1"
    | (o) "Op c \<noteq> OpPUSHDATA1" "Op c \<noteq> OpPUSHDATA2" "Op c \<noteq> OpPUSHDATA4"
          "\<not> (0x01 \<le> Op c \<and> Op c < OpPUSHDATA1)"
    by blast
  then show ?thesis
  proof cases
    case p1
    with assms show ?thesis by (intro ReadOp_enc_p1) (simp_all add: wf_chunk_def)
  next
    case p2
    with assms show ?thesis by (intro ReadOp_enc_p2) (simp_all add: wf_chunk_def)
  next
    case p4
    with assms show ?thesis by (intro ReadOp_enc_p4) (simp_all add: wf_chunk_def)
  next
    case d
    with assms show ?thesis by (intro ReadOp_enc_direct) (simp_all add: wf_chunk_def)
  next
    case o
    with assms show ?thesis by (intro ReadOp_enc_opcode) (simp_all add: wf_chunk_def)
  qed
qed





lemma enc_chunk_nonempty: "enc_chunk c \<noteq> []"
  by (simp add: enc_chunk_def Let_def)

lemma enc_chunks_Cons: "enc_chunks (c # cs) = enc_chunk c @ enc_chunks cs"
  by (simp add: enc_chunks_def)

lemma enc_chunks_Nil: "enc_chunks [] = []"
  by (simp add: enc_chunks_def)

lemma small_byte: "l \<le> 75 \<Longrightarrow> unat (of_nat l :: byte) = l"
  by (simp add: unat_of_nat)

lemma push_chunk_wf:
  assumes "length d \<le> 0xFFFFFFFF"
  shows "wf_chunk (push_chunk d)"
proof -
  let ?l = "length d"
  consider (a) "?l = 0" | (b) "1 \<le> ?l" "?l \<le> 75" | (c) "75 < ?l" "?l \<le> 0xFF"
    | (d) "0xFF < ?l" "?l \<le> 0xFFFF" | (e) "0xFFFF < ?l" by linarith
  then show ?thesis
  proof cases
    case a
    then show ?thesis by (simp add: wf_chunk_def push_chunk_def Let_def)
  next
    case b
    then have u: "unat (of_nat ?l :: byte) = ?l" by (simp add: small_byte)
    have 1: "(of_nat ?l :: byte) \<noteq> OpPUSHDATA1" "(of_nat ?l :: byte) \<noteq> OpPUSHDATA2"
      "(of_nat ?l :: byte) \<noteq> OpPUSHDATA4"
      using u b by (auto dest: arg_cong[where f = unat])
    have 2: "0x01 \<le> (of_nat ?l :: byte)" "(of_nat ?l :: byte) < OpPUSHDATA1"
      using u b by (simp_all add: word_le_nat_alt word_less_nat_alt)
    show ?thesis using b 1 2 u by (simp add: wf_chunk_def push_chunk_def Let_def)
  next
    case c
    then show ?thesis by (simp add: wf_chunk_def push_chunk_def Let_def)
  next
    case d
    then show ?thesis by (simp add: wf_chunk_def push_chunk_def Let_def)
  next
    case e
    then show ?thesis using assms by (simp add: wf_chunk_def push_chunk_def Let_def)
  qed
qed

lemma AppendPushData_enc:
  assumes "length d \<le> 0xFFFFFFFF"
  shows "AppendPushData s d = s @ enc_chunk (push_chunk d)"
proof -
  let ?l = "length d"
  consider (b) "?l \<le> 75" | (c) "75 < ?l" "?l \<le> 0xFF"
    | (d) "0xFF < ?l" "?l \<le> 0xFFFF" | (e) "0xFFFF < ?l" by linarith
  then show ?thesis
  proof cases
    case b
    then have u: "unat (of_nat ?l :: byte) = ?l" by (simp add: small_byte)
    have 1: "(of_nat ?l :: byte) \<noteq> OpPUSHDATA1" "(of_nat ?l :: byte) \<noteq> OpPUSHDATA2"
      "(of_nat ?l :: byte) \<noteq> OpPUSHDATA4"
      using u b by (auto dest: arg_cong[where f = unat])
    show ?thesis using b 1
      by (simp add: AppendPushData_def PushDataPrefix_def push_chunk_def enc_chunk_def Let_def)
  next
    case c
    then show ?thesis
      by (simp add: AppendPushData_def PushDataPrefix_def push_chunk_def enc_chunk_def Let_def)
  next
    case d
    then show ?thesis
      by (simp add: AppendPushData_def PushDataPrefix_def push_chunk_def enc_chunk_def Let_def)
  next
    case e
    then show ?thesis using assms
      by (simp add: AppendPushData_def PushDataPrefix_def push_chunk_def enc_chunk_def Let_def)
  qed
qed

lemma push_chunk_pipe: "is_pipe (push_chunk d) \<longleftrightarrow> d = [0x7c]"
  by (auto simp add: is_pipe_def push_chunk_def Let_def)

lemma pipe_enc: "enc_chunk \<lparr>Op = OpDATA1, Data = [0x7c]\<rparr> = [0x01, 0x7c]"
  by (simp add: enc_chunk_def)

lemma pipe_wf: "wf_chunk \<lparr>Op = OpDATA1, Data = [0x7c]\<rparr>"
  by (simp add: wf_chunk_def)

lemma wf_pipe_cond:
  "wf_chunk c \<Longrightarrow> (Op c = OpDATA1 \<and> Data c ! 0 = 0x7c) = is_pipe c"
proof -
  assume w: "wf_chunk c"
  show ?thesis
  proof (cases "Op c = OpDATA1")
    case True
    with w have "length (Data c) = 1" by (simp add: wf_chunk_def)
    then have "Data c = [Data c ! 0]" by (cases "Data c") simp_all
    then show ?thesis using True by (auto simp add: is_pipe_def)
  next
    case False
    then show ?thesis by (simp add: is_pipe_def)
  qed
qed

lemma return_enc: "enc_chunk \<lparr>Op = OpRETURN, Data = []\<rparr> = [OpRETURN]"
  by (simp add: enc_chunk_def)

lemma return_wf: "wf_chunk \<lparr>Op = OpRETURN, Data = []\<rparr>"
  by (simp add: wf_chunk_def)

lemma str_pipe: "str ''|'' = [0x7c]"
  by (simp add: str_def)

lemma AppendPushData_pipe: "AppendPushData s (str ''|'') = s @ [0x01, 0x7c]"
  by (simp add: str_pipe AppendPushData_def PushDataPrefix_def)

section \<open>The scanning loops\<close>

text \<open>A loop that meets a reader error without cursor movement inside the script never returns.\<close>

lemma findReturn_loop_stuck:
  assumes "i < length scr" and "ReadOp scr i = (Inl e, i)"
  shows "findReturn_loop scr i = None"
proof (cases "findReturn_loop scr i")
  case None
  then show ?thesis .
next
  case (Some y)
  have "\<not> (scr = scr \<and> i = i)"
  proof (rule findReturn_loop.raw_induct[where P = "\<lambda>s j y. \<not> (s = scr \<and> j = i)", OF _ Some])
    fix f s j y
    assume IH: "\<And>s j y. f s j = Some y \<Longrightarrow> \<not> (s = scr \<and> j = i)"
      and body: "(if j < length s
        then case ReadOp s j of (Inl err, i') \<Rightarrow> f s i'
             | (Inr op, i') \<Rightarrow> if Op op = OpRETURN then Some (int j) else f s i'
        else Some (- 1)) = Some y"
    show "\<not> (s = scr \<and> j = i)"
    proof
      assume "s = scr \<and> j = i"
      with body assms have "f scr i = Some y" by simp
      from IH[OF this] show False by simp
    qed
  qed
  then show ?thesis by simp
qed

lemma findPipe_loop_stuck:
  assumes "i < length scr" and "ReadOp scr i = (Inl e, i)"
  shows "findPipe_loop scr i = None"
proof (cases "findPipe_loop scr i")
  case None
  then show ?thesis .
next
  case (Some y)
  have "\<not> (scr = scr \<and> i = i)"
  proof (rule findPipe_loop.raw_induct[where P = "\<lambda>s j y. \<not> (s = scr \<and> j = i)", OF _ Some])
    fix f s j y
    assume IH: "\<And>s j y. f s j = Some y \<Longrightarrow> \<not> (s = scr \<and> j = i)"
      and body: "(if j < length s
        then case ReadOp s j of (Inl err, i') \<Rightarrow> f s i'
             | (Inr op, i') \<Rightarrow>
                 if Op op = OpDATA1 \<and> Data op ! 0 = 0x7c then Some (int j) else f s i'
        else Some (- 1)) = Some y"
    show "\<not> (s = scr \<and> j = i)"
    proof
      assume "s = scr \<and> j = i"
      with body assms have "f scr i = Some y" by simp
      from IH[OF this] show False by simp
    qed
  qed
  then show ?thesis by simp
qed


lemma findPipe_loop_end: "length scr \<le> i \<Longrightarrow> findPipe_loop scr i = Some (- 1)"
  by (subst findPipe_loop.simps) simp

lemma findReturn_loop_end: "length scr \<le> i \<Longrightarrow> findReturn_loop scr i = Some (- 1)"
  by (subst findReturn_loop.simps) simp

lemma findPipe_loop_step:
  assumes "wf_chunk c"
  shows "findPipe_loop (pre @ enc_chunk c @ post) (length pre) =
     (if is_pipe c then Some (int (length pre))
      else findPipe_loop (pre @ enc_chunk c @ post) (length pre + length (enc_chunk c)))"
proof -
  have lt: "length pre < length (pre @ enc_chunk c @ post)"
    using enc_chunk_nonempty[of c] by (cases "enc_chunk c") simp_all
  show ?thesis
    by (subst findPipe_loop.simps) (simp only: lt if_True ReadOp_enc[OF assms] prod.case sum.case
        wf_pipe_cond[OF assms])
qed

lemma findPipe_loop_skip:
  assumes "\<forall>c\<in>set cs. wf_chunk c \<and> \<not> is_pipe c"
  shows "findPipe_loop (pre @ enc_chunks cs @ post) (length pre) =
         findPipe_loop (pre @ enc_chunks cs @ post) (length pre + length (enc_chunks cs))"
  using assms
proof (induction cs arbitrary: pre)
  case Nil
  then show ?case by (simp add: enc_chunks_Nil)
next
  case (Cons c cs)
  then have w: "wf_chunk c" and np: "\<not> is_pipe c"
    and rest: "\<forall>c\<in>set cs. wf_chunk c \<and> \<not> is_pipe c" by simp_all
  have "findPipe_loop (pre @ enc_chunk c @ (enc_chunks cs @ post)) (length pre)
      = findPipe_loop (pre @ enc_chunk c @ (enc_chunks cs @ post)) (length pre + length (enc_chunk c))"
    using findPipe_loop_step[OF w, of pre "enc_chunks cs @ post"] np by simp
  also have "\<dots> = findPipe_loop ((pre @ enc_chunk c) @ enc_chunks cs @ post) (length (pre @ enc_chunk c))"
    by simp
  also have "\<dots> = findPipe_loop ((pre @ enc_chunk c) @ enc_chunks cs @ post)
       (length (pre @ enc_chunk c) + length (enc_chunks cs))"
    by (rule Cons.IH[OF rest])
  finally show ?case by (simp add: enc_chunks_Cons add.assoc)
qed

lemma findReturn_loop_step:
  assumes "wf_chunk c"
  shows "findReturn_loop (pre @ enc_chunk c @ post) (length pre) =
     (if Op c = OpRETURN then Some (int (length pre))
      else findReturn_loop (pre @ enc_chunk c @ post) (length pre + length (enc_chunk c)))"
proof -
  have lt: "length pre < length (pre @ enc_chunk c @ post)"
    using enc_chunk_nonempty[of c] by (cases "enc_chunk c") simp_all
  show ?thesis
    by (subst findReturn_loop.simps) (simp only: lt if_True ReadOp_enc[OF assms] prod.case sum.case)
qed

lemma findReturn_loop_skip:
  assumes "\<forall>c\<in>set cs. wf_chunk c \<and> Op c \<noteq> OpRETURN"
  shows "findReturn_loop (pre @ enc_chunks cs @ post) (length pre) =
         findReturn_loop (pre @ enc_chunks cs @ post) (length pre + length (enc_chunks cs))"
  using assms
proof (induction cs arbitrary: pre)
  case Nil
  then show ?case by (simp add: enc_chunks_Nil)
next
  case (Cons c cs)
  then have w: "wf_chunk c" and np: "Op c \<noteq> OpRETURN"
    and rest: "\<forall>c\<in>set cs. wf_chunk c \<and> Op c \<noteq> OpRETURN" by simp_all
  have "findReturn_loop (pre @ enc_chunk c @ (enc_chunks cs @ post)) (length pre)
      = findReturn_loop (pre @ enc_chunk c @ (enc_chunks cs @ post)) (length pre + length (enc_chunk c))"
    using findReturn_loop_step[OF w, of pre "enc_chunks cs @ post"] np by simp
  also have "\<dots> = findReturn_loop ((pre @ enc_chunk c) @ enc_chunks cs @ post) (length (pre @ enc_chunk c))"
    by simp
  also have "\<dots> = findReturn_loop ((pre @ enc_chunk c) @ enc_chunks cs @ post)
       (length (pre @ enc_chunk c) + length (enc_chunks cs))"
    by (rule Cons.IH[OF rest])
  finally show ?case by (simp add: enc_chunks_Cons add.assoc)
qed

lemma findReturn_loop_marker:
  assumes "\<forall>c\<in>set pcs. wf_chunk c \<and> Op c \<noteq> OpRETURN"
  shows "findReturn_loop (enc_chunks pcs @ [OpRETURN] @ rest) 0 = Some (int (length (enc_chunks pcs)))"
proof -
  let ?S = "enc_chunks pcs @ [OpRETURN] @ rest"
  have "findReturn_loop ([] @ enc_chunks pcs @ ([OpRETURN] @ rest)) (length ([]::byte list))
      = findReturn_loop ([] @ enc_chunks pcs @ ([OpRETURN] @ rest))
          (length ([]::byte list) + length (enc_chunks pcs))"
    by (rule findReturn_loop_skip[OF assms])
  then have "findReturn_loop ?S 0 = findReturn_loop ?S (length (enc_chunks pcs))" by simp
  also have "\<dots> = Some (int (length (enc_chunks pcs)))"
    using findReturn_loop_step[OF return_wf, of "enc_chunks pcs" rest]
    by (simp add: return_enc)
  finally show ?thesis .
qed

lemma Lock_loop_body:
  assumes "\<forall>p\<in>set ps. length (Protocol p) \<le> 0xFFFFFFFF"
  shows "Lock_loop s ps = s @ body ps"
  using assms
proof (induction ps arbitrary: s)
  case Nil
  then show ?case by simp
next
  case (Cons p ps)
  then have l: "length (Protocol p) \<le> 0xFFFFFFFF"
    and rest: "\<forall>p\<in>set ps. length (Protocol p) \<le> 0xFFFFFFFF" by simp_all
  show ?case
    by (simp add: Let_def AppendPushData_enc[OF l] AppendPushData_pipe Cons.IH[OF rest])
qed

lemma Decode_loop_body:
  assumes "ps \<noteq> []" and "\<forall>p\<in>set ps. entry_ok p"
  shows "\<exists>res. Decode_loop (pre @ body ps) (length pre) acc = Some (acc @ res)
           \<and> map (\<lambda>p. (Protocol p, Script p)) res = map (\<lambda>p. (Protocol p, Script p)) ps"
  using assms
proof (induction ps arbitrary: pre acc)
  case Nil
  then show ?case by simp
next
  case (Cons p ps)
  let ?tag = "Protocol p"
  let ?T = "enc_chunk (push_chunk ?tag)"
  let ?P = "Script p"
  from Cons.prems have ok: "entry_ok p" and rest: "\<forall>p\<in>set ps. entry_ok p" by simp_all
  from ok obtain cs where len: "length ?tag \<le> 0xFFFFFFFF" and nopipe: "?tag \<noteq> [0x7c]"
    and P: "?P = enc_chunks cs" and cs: "\<forall>c\<in>set cs. wf_chunk c \<and> \<not> is_pipe c"
    by (auto simp add: entry_ok_def)
  have wT: "wf_chunk (push_chunk ?tag)" by (rule push_chunk_wf[OF len])
  have npT: "\<not> is_pipe (push_chunk ?tag)" using nopipe by (simp add: push_chunk_pipe)
  have all: "\<forall>c\<in>set (push_chunk ?tag # cs). wf_chunk c \<and> \<not> is_pipe c"
    using wT npT cs by simp
  have TP: "enc_chunks (push_chunk ?tag # cs) = ?T @ ?P" by (simp add: enc_chunks_Cons P)
  let ?sep = "(if ps \<noteq> [] then [0x01, 0x7c] else []) :: byte list"
  let ?S = "pre @ body (p # ps)"
  have S: "?S = pre @ (?T @ ?P) @ (?sep @ body ps)" by simp
  have Tne: "?T \<noteq> []" by (rule enc_chunk_nonempty)
  have lt: "length pre < length ?S" using Tne by (cases ?T) simp_all
  have skip: "findPipe_loop ?S (length pre) = findPipe_loop ?S (length pre + length (?T @ ?P))"
    using findPipe_loop_skip[OF all, of pre "?sep @ body ps"] by (simp only: S TP)
  have rd: "ReadOp ?S (length pre) = (Inr (push_chunk ?tag), length pre + length ?T)"
    using ReadOp_enc[OF wT, of pre "?P @ ?sep @ body ps"] by simp
  have pc: "Data (push_chunk ?tag) = ?tag" by (simp add: push_chunk_def Let_def)
  show ?case
  proof (cases "ps = []")
    case True
    then have Sl: "?S = pre @ ?T @ ?P" by simp
    have fp: "findPipe_loop ?S (length pre) = Some (- 1)"
      unfolding skip by (rule findPipe_loop_end) (simp add: True)
    have dr: "drop (length pre + length ?T) ?S = ?P" by (simp add: True)
    have "Decode_loop ?S (length pre) acc
        = Some (acc @ [\<lparr>Protocol = ?tag, Script = ?P, Pos = length pre\<rparr>])"
      by (subst Decode_loop.simps)
         (simp only: lt if_True findPipe_def option.case fp rd prod.case sum.case pc dr simp_thms)
    then show ?thesis using True by simp
  next
    case False
    let ?pre' = "pre @ ?T @ ?P @ [0x01, 0x7c]"
    have S2: "?S = (pre @ ?T @ ?P) @ enc_chunk \<lparr>Op = OpDATA1, Data = [0x7c]\<rparr> @ body ps"
      using False by (simp add: pipe_enc)
    have "findPipe_loop ?S (length (pre @ ?T @ ?P)) = Some (int (length (pre @ ?T @ ?P)))"
      unfolding S2 using findPipe_loop_step[OF pipe_wf, of "pre @ ?T @ ?P" "body ps"]
      by (simp add: is_pipe_def)
    then have fp: "findPipe_loop ?S (length pre) = Some (int (length pre + length ?T + length ?P))"
      unfolding skip by (simp add: add.assoc)
    have tk: "take (nat (int (length pre + length ?T + length ?P)) - (length pre + length ?T))
                (drop (length pre + length ?T) ?S) = ?P"
      by simp
    have nxt: "nat (int (length pre + length ?T + length ?P) + 2) = length ?pre'" by simp
    have S3: "?S = ?pre' @ body ps" using False by simp
    have c1: "int (length pre + length ?T + length ?P) \<noteq> - 1" by linarith
    have c2: "\<not> int (length pre + length ?T + length ?P) < int (length pre + length ?T)" by simp
    have step: "Decode_loop ?S (length pre) acc
        = Decode_loop ?S (length ?pre') (acc @ [\<lparr>Protocol = ?tag, Script = ?P, Pos = length pre\<rparr>])"
      by (subst Decode_loop.simps)
         (simp only: lt if_True if_False findPipe_def option.case fp rd prod.case sum.case pc tk nxt c1 c2 simp_thms)
    from Cons.IH[OF False rest, of ?pre' "acc @ [\<lparr>Protocol = ?tag, Script = ?P, Pos = length pre\<rparr>]"]
    obtain res where r1: "Decode_loop (?pre' @ body ps) (length ?pre')
          (acc @ [\<lparr>Protocol = ?tag, Script = ?P, Pos = length pre\<rparr>])
        = Some ((acc @ [\<lparr>Protocol = ?tag, Script = ?P, Pos = length pre\<rparr>]) @ res)"
      and r2: "map (\<lambda>p. (Protocol p, Script p)) res = map (\<lambda>p. (Protocol p, Script p)) ps"
      by blast
    have "Decode_loop ?S (length pre) acc
        = Some (acc @ (\<lparr>Protocol = ?tag, Script = ?P, Pos = length pre\<rparr> # res))"
      unfolding step using r1 unfolding S3[symmetric] by simp
    moreover have "map (\<lambda>p. (Protocol p, Script p)) (\<lparr>Protocol = ?tag, Script = ?P, Pos = length pre\<rparr> # res)
        = map (\<lambda>p. (Protocol p, Script p)) (p # ps)" using r2 by simp
    ultimately show ?thesis by blast
  qed
qed

section \<open>The prefix kept by the scanner\<close>

text \<open>
  C4. The claim: every byte before the first \<open>OP_RETURN\<close> token, a directly preceding
  \<open>OP_FALSE\<close> included, is kept verbatim in \<open>ScriptPrefix\<close>. The code slices
  \<open>(*scr)[:pos-1]\<close>: on the script \<open>OP_FALSE OP_RETURN push("A")\<close> the prefix comes out
  empty, and \<^verbatim>\<open>Lock\<close>, which writes the prefix and then \<open>OP_RETURN\<close>, does not rebuild the
  script from the decoded envelope.
\<close>

theorem Decode_drops_byte_before_marker:
  "Decode (Some [OpFALSE, OpRETURN, 0x01, 0x41]) =
     Some (Some \<lparr>Protocols = [\<lparr>Protocol = [0x41], Script = [], Pos = 2\<rparr>], ScriptPrefix = []\<rparr>)
   \<and> Lock \<lparr>Protocols = [\<lparr>Protocol = [0x41], Script = [], Pos = 2\<rparr>], ScriptPrefix = []\<rparr>
       = [OpRETURN, 0x01, 0x41]"
  by (simp add: Decode_def findReturn_def findPipe_def findReturn_loop.simps findPipe_loop.simps
      Decode_loop.simps ReadOp_def Lock_def AppendPushData_def PushDataPrefix_def)

section \<open>Termination of the scanner\<close>

text \<open>
  C3. The claim: on every byte string, truncated pushes included, \<^verbatim>\<open>Decode\<close> with
  \<^verbatim>\<open>findReturn\<close> and \<^verbatim>\<open>findPipe\<close> terminates in a number of steps proportional to the input
  and never panics. On \<open>OP_RETURN 0x02 0x41\<close>, a marker followed by a push that declares
  two bytes and has one, \<^verbatim>\<open>findPipe\<close> ignores the reader's error, the cursor does not
  move, and \<^verbatim>\<open>Decode\<close> never returns.
\<close>

theorem Decode_truncated_push_never_returns:
  "Decode (Some [OpRETURN, 0x02, 0x41]) = None"
proof -
  have "findPipe_loop [OpRETURN, 0x02, 0x41] 1 = None"
    by (rule findPipe_loop_stuck[where e = ErrDataTooSmall]) (simp_all add: ReadOp_def)
  then show ?thesis
    by (simp add: Decode_def findReturn_def findPipe_def findReturn_loop.simps
        Decode_loop.simps ReadOp_def)
qed

section \<open>Scripts without a marker\<close>

text \<open>
  C6. The claim: for every script without \<open>OP_RETURN\<close>, \<^verbatim>\<open>Decode\<close> returns nil (no
  marker). The script \<open>0x02 0x41\<close> contains no \<open>OP_RETURN\<close>; \<^verbatim>\<open>findReturn\<close> loops on its
  truncated push and \<^verbatim>\<open>Decode\<close> returns nothing at all.
\<close>

theorem Decode_no_marker_truncated_never_returns:
  "Decode (Some [0x02, 0x41]) = None"
proof -
  have "findReturn_loop [0x02, 0x41] 0 = None"
    by (rule findReturn_loop_stuck[where e = ErrDataTooSmall]) (simp_all add: ReadOp_def)
  then show ?thesis
    by (simp add: Decode_def findReturn_def)
qed

text \<open>On a script of complete tokens without \<open>OP_RETURN\<close> the scanner does return nil.\<close>

lemma Decode_no_marker_wellformed:
  assumes "\<forall>c\<in>set cs. wf_chunk c \<and> Op c \<noteq> OpRETURN"
  shows "Decode (Some (enc_chunks cs)) = Some None"
proof -
  have "findReturn_loop ([] @ enc_chunks cs @ []) (length ([]::byte list))
      = findReturn_loop ([] @ enc_chunks cs @ []) (length ([]::byte list) + length (enc_chunks cs))"
    by (rule findReturn_loop_skip[OF assms])
  then have "findReturn_loop (enc_chunks cs) 0 = Some (- 1)"
    by (simp add: findReturn_loop_end)
  then show ?thesis by (simp add: Decode_def findReturn_def)
qed

section \<open>The delimiter\<close>



section \<open>Round trip of builder and scanner\<close>

text \<open>
  C1, counterexample. The claim: for every non-empty entry list and every prefix,
  \<^verbatim>\<open>Decode\<close> of \<^verbatim>\<open>Lock\<close> gives back the same tags and payload bytes. The single entry with
  tag \<open>"A"\<close> and payload \<open>push("|") push("B")\<close> comes back as two entries with empty
  payloads.
\<close>

theorem Decode_Lock_splits_payload_at_pipe:
  "Decode (Some (Lock \<lparr>Protocols = [\<lparr>Protocol = [0x41], Script = [0x01, 0x7c, 0x01, 0x42], Pos = 0\<rparr>],
                       ScriptPrefix = []\<rparr>))
     = Some (Some \<lparr>Protocols = [\<lparr>Protocol = [0x41], Script = [], Pos = 1\<rparr>,
                                \<lparr>Protocol = [0x42], Script = [], Pos = 5\<rparr>],
                   ScriptPrefix = []\<rparr>)
   \<and> entries_of \<lparr>Protocols = [\<lparr>Protocol = [0x41], Script = [], Pos = 1\<rparr>,
                                \<lparr>Protocol = [0x42], Script = [], Pos = 5\<rparr>],
                   ScriptPrefix = []\<rparr>
     \<noteq> [([0x41], [0x01, 0x7c, 0x01, 0x42])]"
  by (simp add: Decode_def findReturn_def findPipe_def findReturn_loop.simps findPipe_loop.simps
      Decode_loop.simps ReadOp_def Lock_def AppendPushData_def PushDataPrefix_def str_def
      entries_of_def)

text \<open>
  C1, amended. For every non-empty list of entries whose tags fit a push and differ from
  \<open>"|"\<close> and whose payloads are sequences of complete tokens without a delimiter token, and
  every prefix made of complete tokens without \<open>OP_RETURN\<close>, \<^verbatim>\<open>Decode\<close> of the script built
  by \<^verbatim>\<open>Lock\<close> returns an envelope whose entries carry, in order, the same tags and the same
  payload bytes.
\<close>

theorem Decode_Lock_roundtrip:
  assumes ne: "entries \<noteq> []"
    and pre: "\<forall>c\<in>set pcs. wf_chunk c \<and> Op c \<noteq> OpRETURN"
    and ents: "\<forall>e\<in>set entries. length (fst e) \<le> 0xFFFFFFFF \<and> fst e \<noteq> str ''|''
                 \<and> (\<forall>c\<in>set (snd e). wf_chunk c \<and> \<not> is_pipe c)"
  shows "\<exists>b. Decode (Some (Lock \<lparr>Protocols = map mk_entry entries, ScriptPrefix = enc_chunks pcs\<rparr>))
              = Some (Some b)
            \<and> entries_of b = map entry_bytes entries"
proof -
  let ?ps = "map mk_entry entries"
  let ?pre = "enc_chunks pcs @ [OpRETURN]"
  have ok: "\<forall>p\<in>set ?ps. entry_ok p"
    using ents by (auto simp add: entry_ok_def mk_entry_def str_pipe)
  then have lens: "\<forall>p\<in>set ?ps. length (Protocol p) \<le> 0xFFFFFFFF"
    by (simp add: entry_ok_def)
  have psne: "?ps \<noteq> []" using ne by simp
  have L: "Lock \<lparr>Protocols = ?ps, ScriptPrefix = enc_chunks pcs\<rparr> = ?pre @ body ?ps"
    using psne by (simp add: Lock_def Let_def Lock_loop_body[OF lens])
  have fr: "findReturn_loop (?pre @ body ?ps) 0 = Some (int (length (enc_chunks pcs)))"
    using findReturn_loop_marker[OF pre, of "body ?ps"] by simp
  from Decode_loop_body[OF psne ok, of ?pre "[]"]
  obtain res where r1: "Decode_loop (?pre @ body ?ps) (length ?pre) [] = Some res"
    and r2: "map (\<lambda>p. (Protocol p, Script p)) res = map (\<lambda>p. (Protocol p, Script p)) ?ps"
    by auto
  have n: "nat (int (length (enc_chunks pcs)) + 1) = length ?pre" by simp
  have "Decode (Some (?pre @ body ?ps))
      = Some (Some \<lparr>Protocols = res,
           ScriptPrefix = (if int (length (enc_chunks pcs)) > 0
              then take (nat (int (length (enc_chunks pcs)) - 1)) (?pre @ body ?ps) else [])\<rparr>)"
    unfolding Decode_def findReturn_def
    by (simp only: option.case fr n r1 Let_def) simp
  moreover have "map (\<lambda>p. (Protocol p, Script p)) res = map (\<lambda>e. (fst e, enc_chunks (snd e))) entries"
    unfolding r2 by (simp add: mk_entry_def)
  ultimately show ?thesis unfolding L by (simp add: entries_of_def entry_bytes_def)
qed

text \<open>
  C1, witness: the prefix \<open>OP_FALSE\<close> and the entries \<open>("A", push("a|b"))\<close> and \<open>("B", empty)\<close>.
\<close>

theorem Decode_Lock_roundtrip_witness:
  "wf_chunk \<lparr>Op = OpFALSE, Data = []\<rparr>
   \<and> wf_chunk \<lparr>Op = 0x03, Data = [0x61, 0x7c, 0x62]\<rparr>
   \<and> \<not> is_pipe \<lparr>Op = 0x03, Data = [0x61, 0x7c, 0x62]\<rparr>
   \<and> [0x41] \<noteq> str ''|'' \<and> [0x42] \<noteq> str ''|''
   \<and> (\<exists>b. Decode (Some (Lock \<lparr>Protocols = map mk_entry
                 [([0x41], [\<lparr>Op = 0x03, Data = [0x61, 0x7c, 0x62]\<rparr>]), ([0x42], [])],
               ScriptPrefix = enc_chunks [\<lparr>Op = OpFALSE, Data = []\<rparr>]\<rparr>)) = Some (Some b)
          \<and> entries_of b = [([0x41], [0x03, 0x61, 0x7c, 0x62]), ([0x42], [])])"
proof -
  have h1: "[([0x41::byte], [\<lparr>Op = 0x03, Data = [0x61, 0x7c, 0x62]\<rparr>]), ([0x42], [])] \<noteq> []"
    by simp
  have h2: "\<forall>c\<in>set [\<lparr>Op = OpFALSE, Data = []\<rparr>]. wf_chunk c \<and> Op c \<noteq> OpRETURN"
    by (simp add: wf_chunk_def)
  have h3: "\<forall>e\<in>set [([0x41], [\<lparr>Op = 0x03, Data = [0x61, 0x7c, 0x62]\<rparr>]), ([0x42::byte], [])].
         length (fst e) \<le> 0xFFFFFFFF \<and> fst e \<noteq> str ''|''
         \<and> (\<forall>c\<in>set (snd e). wf_chunk c \<and> \<not> is_pipe c)"
    by (simp add: wf_chunk_def is_pipe_def str_def)
  have e: "map entry_bytes
        [([0x41::byte], [\<lparr>Op = 0x03, Data = [0x61, 0x7c, 0x62]\<rparr>]), ([0x42], [])]
      = [([0x41], [0x03, 0x61, 0x7c, 0x62]), ([0x42], [])]"
    by (simp add: entry_bytes_def enc_chunks_def enc_chunk_def)
  from Decode_Lock_roundtrip[OF h1 h2 h3] h2 h3 show ?thesis unfolding e by simp
qed

section \<open>Verification of the detached signature\<close>

lemma test_signature_bytes:
  "str ''H89DSY12iMmrF16T4aDPwFcqrtuGxyoT69yTBH4GqXyzNZ+POVhxV5FLAvHdwKmJ0IhQT/w7JQpTg0XBZ5zeJ+c=''
    = [72, 56, 57, 68, 83, 89, 49, 50, 105, 77, 109, 114, 70, 49, 54, 84, 52, 97, 68, 80, 119, 70,
       99, 113, 114, 116, 117, 71, 120, 121, 111, 84, 54, 57, 121, 84, 66, 72, 52, 71, 113, 88,
       121, 122, 78, 90, 43, 80, 79, 86, 104, 120, 86, 53, 70, 76, 65, 118, 72, 100, 119, 75,
       109, 74, 48, 73, 104, 81, 84, 47, 119, 55, 74, 81, 112, 84, 103, 48, 88, 66, 90, 53,
       122, 101, 74, 43, 99, 61]"
  by (simp add: str_def)

lemma test_signature_decodes:
  "DecodeString
     [72, 56, 57, 68, 83, 89, 49, 50, 105, 77, 109, 114, 70, 49, 54, 84, 52, 97, 68, 80, 119, 70,
       99, 113, 114, 116, 117, 71, 120, 121, 111, 84, 54, 57, 121, 84, 66, 72, 52, 71, 113, 88,
       121, 122, 78, 90, 43, 80, 79, 86, 104, 120, 86, 53, 70, 76, 65, 118, 72, 100, 119, 75,
       109, 74, 48, 73, 104, 81, 84, 47, 119, 55, 74, 81, 112, 84, 103, 48, 88, 66, 90, 53,
       122, 101, 74, 43, 99, 61] \<noteq> None"
  by (simp add: DecodeString_def b64_val_def)

text \<open>
  C10. There is an input on which \<^verbatim>\<open>VerifyMessageSignature\<close> reports \<open>Valid = true\<close> and no
  error although the verification capability rejects the signature: the algorithm \<open>BSM\<close>,
  the signer address \<open>1EXhSbGFiEAZCE5eeBvUxT6cBVHhrpPWXz\<close>, the message \<open>Hello, World!\<close> and
  the hardcoded base64 signature. The verifier here rejects everything.
\<close>

theorem VerifyMessageSignature_hardcoded_vector:
  "VerifyMessageSignature rejects_all
     \<lparr>Sigma.Algorithm = AlgoBSM,
      SignerAddress = str ''1EXhSbGFiEAZCE5eeBvUxT6cBVHhrpPWXz'',
      SignatureValue =
        str ''H89DSY12iMmrF16T4aDPwFcqrtuGxyoT69yTBH4GqXyzNZ+POVhxV5FLAvHdwKmJ0IhQT/w7JQpTg0XBZ5zeJ+c='',
      Message = str ''Hello, World!'',
      Nonce = [], VIN = 0, Sigma.Valid = False, Transaction = None, TargetOutput = 0,
      TargetInput = 0, SigmaInstance = 0\<rparr>
   = (None,
      \<lparr>Sigma.Algorithm = AlgoBSM,
       SignerAddress = str ''1EXhSbGFiEAZCE5eeBvUxT6cBVHhrpPWXz'',
       SignatureValue =
         str ''H89DSY12iMmrF16T4aDPwFcqrtuGxyoT69yTBH4GqXyzNZ+POVhxV5FLAvHdwKmJ0IhQT/w7JQpTg0XBZ5zeJ+c='',
       Message = str ''Hello, World!'',
       Nonce = [], VIN = 0, Sigma.Valid = True, Transaction = None, TargetOutput = 0,
       TargetInput = 0, SigmaInstance = 0\<rparr>)"
proof -
  let ?sig = "str ''H89DSY12iMmrF16T4aDPwFcqrtuGxyoT69yTBH4GqXyzNZ+POVhxV5FLAvHdwKmJ0IhQT/w7JQpTg0XBZ5zeJ+c=''"
  have ne: "?sig \<noteq> []" by (simp add: str_def)
  have "DecodeString ?sig \<noteq> None"
    unfolding test_signature_bytes by (rule test_signature_decodes)
  then obtain d where d: "DecodeString ?sig = Some d" by blast
  have a: "str ''1EXhSbGFiEAZCE5eeBvUxT6cBVHhrpPWXz'' \<noteq> []" by (simp add: str_def)
  have m: "str ''Hello, World!'' \<noteq> []" by (simp add: str_def)
  show ?thesis
    by (simp add: VerifyMessageSignature_def GetSignatureBytes_def rejects_all_def ne a m d)
qed








text \<open>
  C5. The claim: the data hash is the SHA-256 of the output script cut immediately before
  the occurrence number \<open>instance_index\<close> of marker plus \<open>SIGMA\<close> tag. The source says it
  looks for \<open>OP_RETURN\<close> or the separator \<open>|\<close> followed by \<open>SIGMA\<close>, and it tests the
  separator as \<open>op.Op == script.OpPUSHDATA1\<close>. The separator that \<^verbatim>\<open>Lock\<close> writes and
  \<^verbatim>\<open>findPipe\<close> finds is the one-byte push \<open>0x01 0x7c\<close>, whose opcode is \<open>OpDATA1\<close>. On the
  output script \<open>OP_RETURN push("A") push("|") push("SIGMA")\<close> with instance 0 the code
  hashes the whole script, not the three bytes in front of the separator.
\<close>

theorem getDataHash_misses_standard_separator:
  "getDataHash H
     \<lparr>Sigma.Algorithm = AlgoBSM, SignerAddress = str ''1A'', SignatureValue = str ''AQI='',
      Message = [], Nonce = [], VIN = 0, Sigma.Valid = False,
      Transaction = Some \<lparr>Inputs = [Some \<lparr>SourceTXID = Some (replicate 32 0), SourceTxOutIndex = 0\<rparr>],
                           Outputs = [Some \<lparr>LockingScript =
                             Some [OpRETURN, 0x01, 0x41, 0x01, 0x7c, 0x05, 0x53, 0x49, 0x47, 0x4d, 0x41]\<rparr>]\<rparr>,
      TargetOutput = 0, TargetInput = 0, SigmaInstance = 0\<rparr>
   = Inr (Some (H [OpRETURN, 0x01, 0x41, 0x01, 0x7c, 0x05, 0x53, 0x49, 0x47, 0x4d, 0x41]))"
  by (simp add: getDataHash_def ReadOp_def SIGMAPrefix_def str_def)

text \<open>
  The separator is found when it is written with \<open>OP_PUSHDATA1\<close>; a marker directly behind
  a marker is skipped; and the fallback from \<open>input_index\<close> to \<open>output_index\<close> indexes the
  inputs without a range check.
\<close>

lemma getDataHash_loop_finds_pushdata1_separator:
  "getDataHash_loop [OpRETURN, 0x01, 0x41, OpPUSHDATA1, 0x01, 0x7c, 0x05, 0x53, 0x49, 0x47, 0x4d, 0x41]
     0 0 0 0 = [OpRETURN, 0x01, 0x41]"
  by (simp add: ReadOp_def SIGMAPrefix_def str_def)

lemma getDataHash_loop_skips_marker_after_marker:
  "getDataHash_loop [OpRETURN, OpRETURN, 0x05, 0x53, 0x49, 0x47, 0x4d, 0x41] 0 0 0 0
     = [OpRETURN, OpRETURN, 0x05, 0x53, 0x49, 0x47, 0x4d, 0x41]"
  by (simp add: ReadOp_def SIGMAPrefix_def str_def)

lemma getInputHash_panics_on_fallback:
  "getInputHash H
     \<lparr>Sigma.Algorithm = AlgoBSM, SignerAddress = str ''1A'', SignatureValue = str ''AQI='',
      Message = [], Nonce = [], VIN = 5, Sigma.Valid = False,
      Transaction = Some \<lparr>Inputs = [Some \<lparr>SourceTXID = Some (replicate 32 0), SourceTxOutIndex = 0\<rparr>],
                           Outputs = [None, Some \<lparr>LockingScript = Some [OpRETURN]\<rparr>]\<rparr>,
      TargetOutput = 1, TargetInput = 0, SigmaInstance = 0\<rparr>
   = Inl PanicIndexOutOfRange"
  by (simp add: getInputHash_def)

section \<open>The canonical message of the identity signature\<close>

lemma always_push_range: "((x::byte) > 0 \<or> x \<le> 0x4e) = True"
  by (cases "x = 0") (simp_all add: word_greater_zero_iff)

lemma upt_shift: "[i ..< i + Suc n] = i # [Suc i ..< Suc i + n]"
  by (subst upt_rec) simp

lemma validateAip_tape_amended:
  assumes "\<forall>t\<in>set (zip [idx ..< idx + length tape] tape). selected fi (fst t) \<longrightarrow> is_push (snd t)"
  shows "validateAip_tape fi tape (data, idx)
       = (data @ concat (map (amended_token fi) (zip [idx ..< idx + length tape] tape)),
          idx + length tape)"
  using assms
proof (induction tape arbitrary: data idx)
  case Nil
  then show ?case by simp
next
  case (Cons op tape)
  have upt: "[idx ..< idx + length (op # tape)] = idx # [Suc idx ..< Suc idx + length tape]"
    using upt_shift[of idx "length tape"] by simp
  from Cons.prems have hd: "selected fi idx \<longrightarrow> is_push op"
    and tl: "\<forall>t\<in>set (zip [Suc idx ..< Suc idx + length tape] tape). selected fi (fst t) \<longrightarrow> is_push (snd t)"
    unfolding upt by simp_all
  have step: "(if (Op op > 0 \<or> Op op \<le> 0x4e) \<and> selected fi idx then data @ Data op
        else if Op op > 0x43 \<and> IsPrint (Op op) then data @ [Op op] else data)
      = data @ amended_token fi (idx, op)"
    using hd by (auto simp add: always_push_range amended_token_def)
  show ?case
    unfolding upt
    by (simp add: Let_def step Cons.IH[OF tl] del: upt_Suc)
qed

lemma indexed_tokens_Cons_Inr:
  "decode (Script p) = Inr tape \<Longrightarrow>
   indexed_tokens decode start (p # protos)
     = zip [start ..< start + length tape] tape @ indexed_tokens decode (start + length tape) protos"
  by (simp add: entry_tape_def)

lemma indexed_tokens_Cons_Inl:
  "decode (Script p) = Inl err \<Longrightarrow>
   indexed_tokens decode start (p # protos) = indexed_tokens decode start protos"
  by (simp add: entry_tape_def)

lemma validateAip_protos_amended:
  assumes "\<forall>t\<in>set (indexed_tokens decode idx protos). selected fi (fst t) \<longrightarrow> is_push (snd t)"
  shows "\<exists>n. validateAip_protos decode fi protos (data, idx)
             = (data @ amended_entries decode fi idx protos, n)"
  using assms
proof (induction protos arbitrary: data idx)
  case Nil
  then show ?case by simp
next
  case (Cons p protos)
  show ?case
  proof (cases "decode (Script p)")
    case (Inl err)
    from Cons.prems have "\<forall>t\<in>set (indexed_tokens decode idx protos). selected fi (fst t) \<longrightarrow> is_push (snd t)"
      unfolding indexed_tokens_Cons_Inl[where decode = decode and p = p, OF Inl] .
    from Cons.IH[OF this, of "data @ Protocol p"] show ?thesis using Inl by simp
  next
    case (Inr tape)
    from Cons.prems have a: "\<forall>t\<in>set (zip [idx ..< idx + length tape] tape). selected fi (fst t) \<longrightarrow> is_push (snd t)"
      and b: "\<forall>t\<in>set (indexed_tokens decode (idx + length tape) protos). selected fi (fst t) \<longrightarrow> is_push (snd t)"
      unfolding indexed_tokens_Cons_Inr[where decode = decode and p = p, OF Inr] by simp_all
    from Cons.IH[OF b, of "(data @ Protocol p
        @ concat (map (amended_token fi) (zip [idx ..< idx + length tape] tape))) @ [0x7c]"]
    show ?thesis using Inr by (simp add: validateAip_tape_amended[OF a])
  qed
qed

lemma DecodeScript_example:
  "DecodeScript [0x01, 0x78, 0x51, 0x01, 0x79, OpPUSHDATA1, 0x01, 0x7a]
     = Inr [\<lparr>Op = 0x01, Data = [0x78]\<rparr>, \<lparr>Op = 0x51, Data = []\<rparr>, \<lparr>Op = 0x01, Data = [0x79]\<rparr>,
            \<lparr>Op = OpPUSHDATA1, Data = [0x7a]\<rparr>]"
  by (simp add: DecodeScript_def ReadOp_def)

text \<open>
  C2, counterexample. The claim: a push token that is not selected contributes no bytes.
  With \<open>field_indexes = [7]\<close> and the single preceding entry \<open>"A"\<close> with the payload
  \<open>OP_PUSHDATA1 0x01 "B"\<close>, the token 0 is not selected; the code appends its opcode byte
  \<open>0x4c\<close>, so the buffer is \<open>6a 41 4c 7c\<close> where the claim gives \<open>6a 41 7c\<close>, and a verifier
  that accepts exactly the claimed message rejects.
\<close>

theorem validateAip_unselected_push_emits_opcode:
  "fst (validateAip_protos DecodeScript (Some [7])
          [\<lparr>Protocol = [0x41], Script = [OpPUSHDATA1, 0x01, 0x42], Pos = 3\<rparr>] ([OpRETURN], 0))
     = [OpRETURN, 0x41, OpPUSHDATA1, 0x7c]
   \<and> spec_message DecodeScript (Some [7])
          [\<lparr>Protocol = [0x41], Script = [OpPUSHDATA1, 0x01, 0x42], Pos = 3\<rparr>]
     = [OpRETURN, 0x41, 0x7c]
   \<and> validateAip
        (accepts_only (spec_message DecodeScript (Some [7])
            [\<lparr>Protocol = [0x41], Script = [OpPUSHDATA1, 0x01, 0x42], Pos = 3\<rparr>])) DecodeScript
        \<lparr>AIP.BitcomIndex = 2, AIP.Algorithm = str ''BITCOIN_ECDSA'', AIP.Address = str ''1A'',
         AIP.Signature = [0x01], FieldIndexes = Some [7], AIP.Valid = False\<rparr>
        [\<lparr>Protocol = [0x41], Script = [OpPUSHDATA1, 0x01, 0x42], Pos = 3\<rparr>]
     = \<lparr>AIP.BitcomIndex = 2, AIP.Algorithm = str ''BITCOIN_ECDSA'', AIP.Address = str ''1A'',
         AIP.Signature = [0x01], FieldIndexes = Some [7], AIP.Valid = False\<rparr>"
proof -
  have d: "DecodeScript [OpPUSHDATA1, 0x01, 0x42] = Inr [\<lparr>Op = OpPUSHDATA1, Data = [0x42]\<rparr>]"
    by (simp add: DecodeScript_def ReadOp_def)
  have s: "\<not> selected (Some [7]) 0" by (simp add: selected_def)
  have p: "IsPrint OpPUSHDATA1" by (simp add: IsPrint_def)
  have sm: "spec_message DecodeScript (Some [7])
          [\<lparr>Protocol = [0x41], Script = [OpPUSHDATA1, 0x01, 0x42], Pos = 3\<rparr>]
     = [OpRETURN, 0x41, 0x7c]"
    using s by (simp add: spec_message_def entry_tape_def d spec_token_def is_push_def)
  have cm: "validateAip_protos DecodeScript (Some [7])
          [\<lparr>Protocol = [0x41], Script = [OpPUSHDATA1, 0x01, 0x42], Pos = 3\<rparr>] ([OpRETURN], 0)
     = ([OpRETURN, 0x41, OpPUSHDATA1, 0x7c], 1)"
    using s p by (simp add: d)
  have c1: "fst (validateAip_protos DecodeScript (Some [7])
          [\<lparr>Protocol = [0x41], Script = [OpPUSHDATA1, 0x01, 0x42], Pos = 3\<rparr>] ([OpRETURN], 0))
     = [OpRETURN, 0x41, OpPUSHDATA1, 0x7c]"
    unfolding cm by simp
  have c3: "validateAip (accepts_only [OpRETURN, 0x41, 0x7c]) DecodeScript
        \<lparr>AIP.BitcomIndex = 2, AIP.Algorithm = str ''BITCOIN_ECDSA'', AIP.Address = str ''1A'',
         AIP.Signature = [0x01], FieldIndexes = Some [7], AIP.Valid = False\<rparr>
        [\<lparr>Protocol = [0x41], Script = [OpPUSHDATA1, 0x01, 0x42], Pos = 3\<rparr>]
     = \<lparr>AIP.BitcomIndex = 2, AIP.Algorithm = str ''BITCOIN_ECDSA'', AIP.Address = str ''1A'',
         AIP.Signature = [0x01], FieldIndexes = Some [7], AIP.Valid = False\<rparr>"
    unfolding validateAip_def AIP.simps cm by (simp add: accepts_only_def)
  show ?thesis unfolding sm using c1 c3 by blast
qed

text \<open>
  C2, amended. For every identity signature and every list of preceding entries in which
  every selected token is a push (opcode \<open>0x01..0x4e\<close>), \<^verbatim>\<open>validateAip\<close> calls the
  verification capability on exactly this buffer and sets \<open>Valid\<close> when it accepts: the
  marker byte, then for each entry its tag and, when its payload decodes, its token
  stream and the delimiter \<open>|\<close>. A selected push contributes its data; every other token
  contributes its opcode byte when that byte is above \<open>0x43\<close> and printable, and nothing
  otherwise. An entry whose payload does not decode contributes its tag alone.
\<close>

theorem validateAip_canonical_message:
  assumes "\<forall>t\<in>set (indexed_tokens decode 0 protos).
             selected (FieldIndexes aip) (fst t) \<longrightarrow> is_push (snd t)"
  shows "validateAip verify decode aip protos
       = (if verify (AIP.Address aip) (AIP.Signature aip)
               (amended_message decode (FieldIndexes aip) protos)
          then aip\<lparr>AIP.Valid := True\<rparr> else aip)"
proof -
  from validateAip_protos_amended[OF assms, of "[OpRETURN]"]
  obtain n where "validateAip_protos decode (FieldIndexes aip) protos ([OpRETURN], 0)
      = ([OpRETURN] @ amended_entries decode (FieldIndexes aip) 0 protos, n)" by blast
  then show ?thesis by (simp add: validateAip_def amended_message_def)
qed

text \<open>
  C2, witness: \<open>field_indexes = [0, 2]\<close> and the entry \<open>"A"\<close> with the payload
  \<open>push("x") OP_1 push("y") OP_PUSHDATA1("z")\<close>; the buffer is \<open>6a 41 78 51 79 4c 7c\<close>.
\<close>

theorem validateAip_canonical_message_witness:
  "indexed_tokens DecodeScript 0
      [\<lparr>Protocol = [0x41], Script = [0x01, 0x78, 0x51, 0x01, 0x79, OpPUSHDATA1, 0x01, 0x7a], Pos = 3\<rparr>]
     = [(0, \<lparr>Op = 0x01, Data = [0x78]\<rparr>), (1, \<lparr>Op = 0x51, Data = []\<rparr>),
        (2, \<lparr>Op = 0x01, Data = [0x79]\<rparr>), (3, \<lparr>Op = OpPUSHDATA1, Data = [0x7a]\<rparr>)]
   \<and> selected (Some [0, 2]) 0 \<and> is_push \<lparr>Op = 0x01, Data = [0x78]\<rparr>
   \<and> \<not> selected (Some [0, 2]) 1
   \<and> selected (Some [0, 2]) 2 \<and> is_push \<lparr>Op = 0x01, Data = [0x79]\<rparr>
   \<and> \<not> selected (Some [0, 2]) 3
   \<and> amended_message DecodeScript (Some [0, 2])
        [\<lparr>Protocol = [0x41], Script = [0x01, 0x78, 0x51, 0x01, 0x79, OpPUSHDATA1, 0x01, 0x7a], Pos = 3\<rparr>]
      = [OpRETURN, 0x41, 0x78, 0x51, 0x79, OpPUSHDATA1, 0x7c]
   \<and> validateAip (accepts_only [OpRETURN, 0x41, 0x78, 0x51, 0x79, OpPUSHDATA1, 0x7c]) DecodeScript
        \<lparr>AIP.BitcomIndex = 2, AIP.Algorithm = str ''BITCOIN_ECDSA'', AIP.Address = str ''1A'',
         AIP.Signature = [0x01], FieldIndexes = Some [0, 2], AIP.Valid = False\<rparr>
        [\<lparr>Protocol = [0x41], Script = [0x01, 0x78, 0x51, 0x01, 0x79, OpPUSHDATA1, 0x01, 0x7a], Pos = 3\<rparr>]
      = \<lparr>AIP.BitcomIndex = 2, AIP.Algorithm = str ''BITCOIN_ECDSA'', AIP.Address = str ''1A'',
         AIP.Signature = [0x01], FieldIndexes = Some [0, 2], AIP.Valid = True\<rparr>"
proof -
  let ?protos = "[\<lparr>Protocol = [0x41], Script = [0x01, 0x78, 0x51, 0x01, 0x79, OpPUSHDATA1, 0x01, 0x7a], Pos = 3\<rparr>]"
  let ?aip = "\<lparr>AIP.BitcomIndex = 2, AIP.Algorithm = str ''BITCOIN_ECDSA'', AIP.Address = str ''1A'',
         AIP.Signature = [0x01], FieldIndexes = Some [0, 2], AIP.Valid = False\<rparr>"
  have it: "indexed_tokens DecodeScript 0 ?protos
     = [(0, \<lparr>Op = 0x01, Data = [0x78]\<rparr>), (1, \<lparr>Op = 0x51, Data = []\<rparr>),
        (2, \<lparr>Op = 0x01, Data = [0x79]\<rparr>), (3, \<lparr>Op = OpPUSHDATA1, Data = [0x7a]\<rparr>)]"
    by (simp add: entry_tape_def DecodeScript_example upt_rec)
  have h: "\<forall>t\<in>set (indexed_tokens DecodeScript 0 ?protos).
             selected (FieldIndexes ?aip) (fst t) \<longrightarrow> is_push (snd t)"
    unfolding it by (simp add: selected_def is_push_def)
  have m: "amended_message DecodeScript (Some [0, 2]) ?protos
      = [OpRETURN, 0x41, 0x78, 0x51, 0x79, OpPUSHDATA1, 0x7c]"
    by (simp add: amended_message_def DecodeScript_example upt_rec amended_token_def IsPrint_def
        is_push_def selected_def)
  from validateAip_canonical_message[OF h, of "accepts_only [OpRETURN, 0x41, 0x78, 0x51, 0x79, OpPUSHDATA1, 0x7c]"]
  have v: "validateAip (accepts_only [OpRETURN, 0x41, 0x78, 0x51, 0x79, OpPUSHDATA1, 0x7c]) DecodeScript ?aip ?protos
      = ?aip\<lparr>AIP.Valid := True\<rparr>"
    by (simp add: m accepts_only_def)
  show ?thesis unfolding it m v by (simp add: selected_def is_push_def)
qed

section \<open>The sequence number of an attestation\<close>

lemma digits_foldl_mono: "m \<le> foldl (\<lambda>n c. n * 10 + digit_value c) m (xs :: byte list)"
proof (induction xs arbitrary: m)
  case Nil
  then show ?case by simp
next
  case (Cons x xs)
  have "m \<le> m * 10 + digit_value x" by simp
  also have "\<dots> \<le> foldl (\<lambda>n c. n * 10 + digit_value c) (m * 10 + digit_value x) xs"
    by (rule Cons.IH)
  finally show ?case by simp
qed

lemma ParseUint_loop_nondecimal:
  assumes "\<not> list_all is_digit s" and "n \<le> maxUint64"
  shows "ParseUint_loop n s =
    (if maxUint64 < foldl (\<lambda>n c. n * 10 + digit_value c) n (takeWhile is_digit s)
     then (maxUint64, Some ErrRange) else (0, Some ErrSyntax))"
  using assms
proof (induction s arbitrary: n)
  case Nil
  then show ?case by simp
next
  case (Cons c cs)
  let ?f = "\<lambda>n c. n * 10 + digit_value c"
  show ?case
  proof (cases "is_digit c")
    case False
    then show ?thesis using Cons.prems(2) by simp
  next
    case True
    with Cons.prems(1) have rest: "\<not> list_all is_digit cs" by simp
    have tw: "foldl ?f n (takeWhile is_digit (c # cs)) = foldl ?f (?f n c) (takeWhile is_digit cs)"
      using True by simp
    have mono: "?f n c \<le> foldl ?f (?f n c) (takeWhile is_digit cs)"
      by (rule digits_foldl_mono)
    show ?thesis
    proof (cases "n \<ge> maxUint64 div 10 + 1")
      case big: True
      then have "maxUint64 < ?f n c" by simp
      with mono have "maxUint64 < foldl ?f (?f n c) (takeWhile is_digit cs)" by linarith
      then show ?thesis unfolding tw using True big by simp
    next
      case small: False
      show ?thesis
      proof (cases "?f n c > maxUint64")
        case over: True
        with mono have "maxUint64 < foldl ?f (?f n c) (takeWhile is_digit cs)" by linarith
        then show ?thesis unfolding tw using True small over by (simp add: Let_def)
      next
        case ok: False
        then have le: "?f n c \<le> maxUint64" by simp
        show ?thesis unfolding tw using True small ok Cons.IH[OF rest le] by (simp add: Let_def)
      qed
    qed
  qed
qed

lemma ParseUint_nondecimal:
  assumes "\<not> is_decimal s"
  shows "fst (ParseUint s) = (if maxUint64 < leading_value s then - 1 else 0)"
proof (cases "s = []")
  case True
  then show ?thesis by (simp add: ParseUint_def leading_value_def)
next
  case False
  with assms have nd: "\<not> list_all is_digit s" by (simp add: is_decimal_def)
  have "ParseUint_loop 0 s =
    (if maxUint64 < leading_value s then (maxUint64, Some ErrRange) else (0, Some ErrSyntax))"
    unfolding leading_value_def by (rule ParseUint_loop_nondecimal[OF nd]) simp
  then show ?thesis using False by (simp add: ParseUint_def)
qed

lemma ParseUint_overflow_before_syntax:
  "ParseUint (str ''99999999999999999999x'') = (- 1, Some ErrRange)"
  by (simp add: ParseUint_def str_def is_digit_def digit_value_def)

lemma aipSignature_Sequence: "Sequence (aipSignature chunks isID bap) = Sequence bap"
  by (simp add: aipSignature_def Let_def split: option.splits)

lemma type_names_distinct:
  "ATTEST \<noteq> ID" "REVOKE \<noteq> ID" "REVOKE \<noteq> ATTEST"
  by (simp_all add: ATTEST_def ID_def REVOKE_def str_def)

lemma DecodeBAP_entry_sequence:
  assumes "Chunks (Script p) = Inr cs" and "3 \<le> length cs"
    and "Data (cs ! 0) = ATTEST \<or> Data (cs ! 0) = REVOKE"
  shows "\<exists>bap. DecodeBAP_entry Chunks TrimSpace ii p = Some bap
           \<and> Sequence bap = fst (ParseUint (Data (cs ! 2)))"
proof -
  from assms(2) have l2: "\<not> length cs < 2" by simp
  from assms(3) show ?thesis
  proof
    assume "Data (cs ! 0) = ATTEST"
    then show ?thesis using assms(1,2) l2
      by (simp add: DecodeBAP_entry_def Let_def type_names_distinct aipSignature_Sequence)
  next
    assume "Data (cs ! 0) = REVOKE"
    then show ?thesis using assms(1,2) l2
      by (simp add: DecodeBAP_entry_def Let_def type_names_distinct aipSignature_Sequence)
  qed
qed

lemma DecodeBAP_loop_first:
  assumes "\<forall>q\<in>set pre. Protocol q \<noteq> BAPPrefix" and "Protocol p = BAPPrefix"
    and "DecodeBAP_entry Chunks TrimSpace (ii + length pre) p = Some bap"
  shows "DecodeBAP_loop Chunks TrimSpace ii (pre @ p # post) = Some bap"
  using assms
proof (induction pre arbitrary: ii)
  case Nil
  then show ?case by simp
next
  case (Cons q pre)
  from Cons.prems have q: "Protocol q \<noteq> BAPPrefix" and rest: "\<forall>q\<in>set pre. Protocol q \<noteq> BAPPrefix"
    by simp_all
  from Cons.prems(3) have e: "DecodeBAP_entry Chunks TrimSpace ((ii + 1) + length pre) p = Some bap"
    by simp
  from Cons.IH[OF rest Cons.prems(2) e] show ?case using q by simp
qed

lemma DecodeScript_attest_abc:
  "DecodeScript [0x06, 0x41, 0x54, 0x54, 0x45, 0x53, 0x54, 0x02, 0x74, 0x78, 0x03, 0x61, 0x62, 0x63]
    = Inr [\<lparr>Op = 0x06, Data = [0x41, 0x54, 0x54, 0x45, 0x53, 0x54]\<rparr>, \<lparr>Op = 0x02, Data = [0x74, 0x78]\<rparr>,
           \<lparr>Op = 0x03, Data = [0x61, 0x62, 0x63]\<rparr>]"
  by (simp add: DecodeScript_def ReadOp_def)

lemma DecodeScript_attest_zero:
  "DecodeScript [0x06, 0x41, 0x54, 0x54, 0x45, 0x53, 0x54, 0x02, 0x74, 0x78, 0x01, 0x30]
    = Inr [\<lparr>Op = 0x06, Data = [0x41, 0x54, 0x54, 0x45, 0x53, 0x54]\<rparr>, \<lparr>Op = 0x02, Data = [0x74, 0x78]\<rparr>,
           \<lparr>Op = 0x01, Data = [0x30]\<rparr>]"
  by (simp add: DecodeScript_def ReadOp_def)

lemma ATTEST_bytes: "ATTEST = [0x41, 0x54, 0x54, 0x45, 0x53, 0x54]"
  by (simp add: ATTEST_def str_def)

lemma ID_not_ATTEST_bytes: "[0x41, 0x54, 0x54, 0x45, 0x53, 0x54] \<noteq> ID"
  by (simp add: ID_def str_def)

text \<open>
  C8, counterexample. The claim: with a third token that is not a decimal number the
  record's sequence field is absent rather than defaulted. The field is a \<open>uint64\<close>: the
  payload \<open>ATTEST "tx" "abc"\<close> decodes to a record with the sequence 0, the very record
  that \<open>ATTEST "tx" "0"\<close> decodes to.
\<close>

theorem DecodeBAP_nonnumeric_sequence_is_zero:
  "DecodeBAP DecodeScript id
     (Some \<lparr>Protocols = [\<lparr>Protocol = BAPPrefix,
              Script = [0x06, 0x41, 0x54, 0x54, 0x45, 0x53, 0x54, 0x02, 0x74, 0x78, 0x03, 0x61, 0x62, 0x63],
              Pos = 3\<rparr>], ScriptPrefix = []\<rparr>)
   = Some \<lparr>BitcomIndex = 0, Type = ATTEST, IDKey = [0x74, 0x78], Address = [], Sequence = 0,
           Algorithm = [], SignerAddr = [], Signature = [], RootAddress = [],
           IsSignedByID = False, Profile = []\<rparr>
   \<and> DecodeBAP DecodeScript id
     (Some \<lparr>Protocols = [\<lparr>Protocol = BAPPrefix,
              Script = [0x06, 0x41, 0x54, 0x54, 0x45, 0x53, 0x54, 0x02, 0x74, 0x78, 0x01, 0x30],
              Pos = 3\<rparr>], ScriptPrefix = []\<rparr>)
   = Some \<lparr>BitcomIndex = 0, Type = ATTEST, IDKey = [0x74, 0x78], Address = [], Sequence = 0,
           Algorithm = [], SignerAddr = [], Signature = [], RootAddress = [],
           IsSignedByID = False, Profile = []\<rparr>"
proof -
  have p: "ParseUint [0x61, 0x62, 0x63] = (0, Some ErrSyntax)"
    by (simp add: ParseUint_def is_digit_def)
  have z: "ParseUint [0x30] = (0, None)"
    by (simp add: ParseUint_def is_digit_def digit_value_def)
  show ?thesis
    by (simp add: DecodeBAP_def DecodeBAP_entry_def Let_def DecodeScript_attest_abc
        DecodeScript_attest_zero ATTEST_bytes ID_not_ATTEST_bytes p z aipSignature_def)
qed

text \<open>
  C8, amended. For every \<open>ATTEST\<close> or \<open>REVOKE\<close> payload with at least three tokens, in the
  first entry that carries the BAP tag, whose third token is not a decimal number,
  \<^verbatim>\<open>DecodeBAP\<close> returns a record, and its sequence field holds the value that
  \<^verbatim>\<open>ParseUint\<close> returns with its error: 0, or \<open>2^64 - 1\<close> when the digits in front of the
  first other byte already exceed the range of \<open>uint64\<close>.
\<close>

theorem DecodeBAP_nonnumeric_sequence:
  assumes "Protocols b = pre @ p # post"
    and "\<forall>q\<in>set pre. Protocol q \<noteq> BAPPrefix"
    and "Protocol p = BAPPrefix"
    and "Chunks (Script p) = Inr cs"
    and "3 \<le> length cs"
    and "Data (cs ! 0) = ATTEST \<or> Data (cs ! 0) = REVOKE"
    and "\<not> is_decimal (Data (cs ! 2))"
  shows "\<exists>bap. DecodeBAP Chunks TrimSpace (Some b) = Some bap
           \<and> Sequence bap = (if maxUint64 < leading_value (Data (cs ! 2)) then - 1 else 0)"
proof -
  from DecodeBAP_entry_sequence[where Chunks = Chunks and p = p, OF assms(4,5,6), of TrimSpace "0 + length pre"]
  obtain bap where e: "DecodeBAP_entry Chunks TrimSpace (0 + length pre) p = Some bap"
    and s: "Sequence bap = fst (ParseUint (Data (cs ! 2)))" by blast
  have "DecodeBAP_loop Chunks TrimSpace 0 (pre @ p # post) = Some bap"
    by (rule DecodeBAP_loop_first[OF assms(2,3) e])
  then have "DecodeBAP Chunks TrimSpace (Some b) = Some bap"
    using assms(1) by (simp add: DecodeBAP_def)
  moreover have "Sequence bap = (if maxUint64 < leading_value (Data (cs ! 2)) then - 1 else 0)"
    unfolding s by (rule ParseUint_nondecimal[OF assms(7)])
  ultimately show ?thesis by blast
qed

text \<open>C8, witness: the payload \<open>ATTEST "tx" "abc"\<close>; the sequence is 0.\<close>

theorem DecodeBAP_nonnumeric_sequence_witness:
  "DecodeScript [0x06, 0x41, 0x54, 0x54, 0x45, 0x53, 0x54, 0x02, 0x74, 0x78, 0x03, 0x61, 0x62, 0x63]
       = Inr [\<lparr>Op = 0x06, Data = [0x41, 0x54, 0x54, 0x45, 0x53, 0x54]\<rparr>,
              \<lparr>Op = 0x02, Data = [0x74, 0x78]\<rparr>, \<lparr>Op = 0x03, Data = [0x61, 0x62, 0x63]\<rparr>]
   \<and> ATTEST = [0x41, 0x54, 0x54, 0x45, 0x53, 0x54]
   \<and> \<not> is_decimal [0x61, 0x62, 0x63]
   \<and> \<not> maxUint64 < leading_value [0x61, 0x62, 0x63]
   \<and> (\<exists>bap. DecodeBAP DecodeScript id
          (Some \<lparr>Protocols = [\<lparr>Protocol = BAPPrefix,
              Script = [0x06, 0x41, 0x54, 0x54, 0x45, 0x53, 0x54, 0x02, 0x74, 0x78, 0x03, 0x61, 0x62, 0x63],
              Pos = 3\<rparr>], ScriptPrefix = []\<rparr>) = Some bap
        \<and> Sequence bap = 0)"
proof -
  let ?p = "\<lparr>Protocol = BAPPrefix,
              Script = [0x06, 0x41, 0x54, 0x54, 0x45, 0x53, 0x54, 0x02, 0x74, 0x78, 0x03, 0x61, 0x62, 0x63],
              Pos = 3\<rparr>"
  let ?cs = "[\<lparr>Op = 0x06, Data = [0x41, 0x54, 0x54, 0x45, 0x53, 0x54]\<rparr>,
              \<lparr>Op = 0x02, Data = [0x74, 0x78]\<rparr>, \<lparr>Op = 0x03, Data = [0x61, 0x62, 0x63]\<rparr>]"
  have h1: "Protocols \<lparr>Protocols = [?p], ScriptPrefix = []\<rparr> = [] @ ?p # []" by simp
  have h2: "\<forall>q\<in>set ([] :: BitcomProtocol list). Protocol q \<noteq> BAPPrefix" by simp
  have h3: "Protocol ?p = BAPPrefix" by simp
  have h4: "DecodeScript (Script ?p) = Inr ?cs" by (simp add: DecodeScript_attest_abc)
  have h5: "3 \<le> length ?cs" by simp
  have h6: "Data (?cs ! 0) = ATTEST \<or> Data (?cs ! 0) = REVOKE" by (simp add: ATTEST_bytes)
  have nd: "\<not> is_decimal [0x61, 0x62, 0x63]" by (simp add: is_decimal_def is_digit_def)
  have h7: "\<not> is_decimal (Data (?cs ! 2))" using nd by simp
  have lv: "\<not> maxUint64 < leading_value [0x61, 0x62, 0x63]"
    by (simp add: leading_value_def is_digit_def)
  from DecodeBAP_nonnumeric_sequence[where Chunks = DecodeScript and TrimSpace = id,
      OF h1 h2 h3 h4 h5 h6 h7] lv nd
  show ?thesis by (simp add: DecodeScript_attest_abc ATTEST_bytes)
qed

end
